theory Spec2Isabelle
  imports Complex_Main "HOL-Library.Word" "HOL-Library.Log_Nat"
begin

unbundle bit_operations_syntax

section \<open>Data model of the MAX17263 driver\<close>

text \<open>
  The driver is the C++ class \<open>MAX17263\<close> of \<open>MAX17263.cpp\<close>. It talks to the fuel gauge
  through the Arduino \<open>Wire\<close> bus and uses \<open>millis()\<close> and \<open>delay()\<close> for its two polling
  loops. The model passes the state explicitly: the fields of the object, the state of
  everything outside the driver (chip, bus, clock), and a log of the register writes the
  driver has issued.

  Conventions.
  \<^item> \<open>uint16_t\<close>, \<open>byte\<close>, \<open>uint32_t\<close> are words of that width; \<open>long\<close> is a 32-bit word
    read as two's complement.
  \<^item> \<open>float\<close> and \<open>double\<close> values are real numbers; infinities and NaN are not
    represented. Where the driver stores or casts the result of float arithmetic
    (\<open>setVEmpty\<close>, \<open>calcMultipliers\<close>, \<open>setDesignCap_mAh\<close>), every operation rounds
    its exact result with the rounding of the platform: \<open>fround\<close> to \<open>float\<close>, \<open>dround\<close> to
    \<open>double\<close> (an expression with a \<open>double\<close> literal such as \<open>1.5625e-6\<close> is computed
    in \<open>double\<close>; on a platform whose \<open>double\<close> is the 32-bit format both roundings are
    the same). The products the telemetry accessors return are kept exact. A float
    division whose divisor is zero has no real value; where its result is used (the
    cast in \<open>setDesignCap_mAh\<close>) the model says so explicitly. \<open>calcMultipliers\<close> is meant
    for a non-zero resistance, and no theorem below depends on the quotients it stores
    for a zero one.
  \<^item> The cast \<open>(uint16_t) x\<close> of a float truncates towards zero when the truncated value
    fits 16 bits. Otherwise C++ leaves the result undefined; the model takes the value
    the platform produces there as the parameter \<open>cast_oor\<close>.
\<close>

type_synonym byte = "8 word"
type_synonym u16 = "16 word"
type_synonym u32 = "32 word"
type_synonym long = "32 word"

text \<open>
  The register addresses (\<open>regStatus\<close>, \<open>regFStat\<close>, ...) are declared in the header
  \<open>MAX17263.h\<close>, not in \<open>MAX17263.cpp\<close>; the model takes them as parameters.
\<close>

record regmap =
  regStatus :: byte
  regFStat :: byte
  regDesignCap :: byte
  regIchgTerm :: byte
  regVEmpty :: byte
  regModelCfg :: byte
  regHibCfg :: byte
  regVCell :: byte
  regAvgVCell :: byte
  regCurrent :: byte
  regRepCap :: byte
  regRepSOC :: byte
  regTimeToEmpty :: byte
  regTemp :: byte
  regLedCfg1 :: byte
  regLedCfg2 :: byte

text \<open>
  The fields of the object that the member functions use. The three fixed scale factors
  (\<open>voltage_multiplier_V\<close>, \<open>SOC_multiplier\<close>, \<open>time_multiplier_Hours\<close>) are also declared
  in the header; their values are parameters.
\<close>

record max17263 =
  regs :: regmap
  I2CAddress :: byte
  rSense :: real
  designCap_mAh :: long
  ichgTerm :: u16
  vEmpty :: real
  r100 :: bool
  vChg :: bool
  modelID :: byte
  current_multiplier_mV :: real
  capacity_multiplier_mAH :: real
  voltage_multiplier_V :: real
  SOC_multiplier :: real
  time_multiplier_Hours :: real
  originalHibernateCFG :: u16

text \<open>
  The platform: what the driver calls but does not define. \<open>'e\<close> is the state of the
  environment (chip registers, bus, clock).
  \<^item> \<open>wire_request a r e\<close>: \<open>Wire.beginTransmission(a); Wire.write(r);
    Wire.endTransmission(false); Wire.requestFrom(a, 2)\<close>; it returns the bytes then in the
    receive buffer (\<open>Wire.available()\<close> is their number, \<open>Wire.read()\<close> takes them in
    order) and the new environment.
  \<^item> \<open>wire_send a bs e\<close>: \<open>Wire.beginTransmission(a)\<close>, one \<open>Wire.write\<close> for each byte of
    \<open>bs\<close>, \<open>Wire.endTransmission()\<close>.
  \<^item> \<open>millis e\<close>: the 32-bit millisecond counter. \<open>delay n e\<close>: the environment after
    \<open>delay(n)\<close>.
  \<^item> \<open>cast_oor x\<close>: the result of \<open>(uint16_t) x\<close> where C++ leaves it undefined; \<open>None\<close>
    stands for a float that is not finite.
  \<^item> \<open>fround x\<close> and \<open>dround x\<close>: the \<open>float\<close> and the \<open>double\<close> that the exact result \<open>x\<close>
    of an arithmetic operation is rounded to.
\<close>

record 'e platform =
  wire_request :: "byte \<Rightarrow> byte \<Rightarrow> 'e \<Rightarrow> byte list \<times> 'e"
  wire_send :: "byte \<Rightarrow> byte list \<Rightarrow> 'e \<Rightarrow> 'e"
  millis :: "'e \<Rightarrow> u32"
  delay :: "nat \<Rightarrow> 'e \<Rightarrow> 'e"
  cast_oor :: "real option \<Rightarrow> u16"
  fround :: "real \<Rightarrow> real"
  dround :: "real \<Rightarrow> real"

text \<open>
  The whole state: the object, the environment, and the register writes issued so far
  (oldest first). The log is not part of the program; it records what
  \<open>writeReg16Bit\<close> was asked to write.
\<close>

record 'e sys =
  drv :: max17263
  dev :: 'e
  wlog :: "(byte \<times> u16) list"

section \<open>Register access\<close>

definition readReg16Bit :: "'e platform \<Rightarrow> byte \<Rightarrow> 'e sys \<Rightarrow> u16 \<times> 'e sys" where
  "readReg16Bit hw reg s =
     (case wire_request hw (I2CAddress (drv s)) reg (dev s) of
        (bs, e) \<Rightarrow>
          (if 2 \<le> length bs
           then (ucast (bs ! 0)) OR push_bit 8 (ucast (bs ! 1))
           else 0,
           s\<lparr>dev := e\<rparr>))"

definition writeReg16Bit :: "'e platform \<Rightarrow> byte \<Rightarrow> u16 \<Rightarrow> 'e sys \<Rightarrow> 'e sys" where
  "writeReg16Bit hw reg v s =
     s\<lparr>dev := wire_send hw (I2CAddress (drv s))
                [reg, ucast (v AND 0xFF), ucast (drop_bit 8 v AND 0xFF)] (dev s),
       wlog := wlog s @ [(reg, v)]\<rparr>"

definition do_delay :: "'e platform \<Rightarrow> nat \<Rightarrow> 'e sys \<Rightarrow> 'e sys" where
  "do_delay hw n s = s\<lparr>dev := delay hw n (dev s)\<rparr>"

definition getStatus :: "'e platform \<Rightarrow> 'e sys \<Rightarrow> u16 \<times> 'e sys" where
  "getStatus hw s = readReg16Bit hw (regStatus (regs (drv s))) s"

definition batteryPresent :: "'e platform \<Rightarrow> 'e sys \<Rightarrow> bool \<times> 'e sys" where
  "batteryPresent hw s =
     (case getStatus hw s of (status, s1) \<Rightarrow> (status AND 0x0008 = 0, s1))"

definition powerOnResetEvent :: "'e platform \<Rightarrow> 'e sys \<Rightarrow> bool \<times> 'e sys" where
  "powerOnResetEvent hw s =
     (case getStatus hw s of (status, s1) \<Rightarrow> (status AND 0x0002 \<noteq> 0, s1))"

section \<open>Float to integer casts\<close>

definition float_to_u16 :: "'e platform \<Rightarrow> real option \<Rightarrow> u16" where
  "float_to_u16 hw x =
     (case x of
        None \<Rightarrow> cast_oor hw None
      | Some r \<Rightarrow>
          if - 1 < r \<and> r < 65536
          then (if r < 0 then 0 else word_of_int \<lfloor>r\<rfloor>)
          else cast_oor hw (Some r))"

definition float_div :: "'e platform \<Rightarrow> real \<Rightarrow> real \<Rightarrow> real option" where
  "float_div hw a b = (if b = 0 then None else Some (fround hw (a / b)))"

section \<open>Telemetry accessors\<close>

definition getCurrent :: "'e platform \<Rightarrow> 'e sys \<Rightarrow> real \<times> 'e sys" where
  "getCurrent hw s =
     (case readReg16Bit hw (regCurrent (regs (drv s))) s of
        (currentRaw, s1) \<Rightarrow>
          (real_of_int (sint currentRaw) * current_multiplier_mV (drv s1), s1))"

definition getVcell :: "'e platform \<Rightarrow> 'e sys \<Rightarrow> real \<times> 'e sys" where
  "getVcell hw s =
     (case readReg16Bit hw (regVCell (regs (drv s))) s of
        (vcellRaw, s1) \<Rightarrow> (real (unat vcellRaw) * voltage_multiplier_V (drv s1), s1))"

definition getCapacity_mAh :: "'e platform \<Rightarrow> 'e sys \<Rightarrow> real \<times> 'e sys" where
  "getCapacity_mAh hw s =
     (case readReg16Bit hw (regRepCap (regs (drv s))) s of
        (repCap, s1) \<Rightarrow> (real (unat repCap) * capacity_multiplier_mAH (drv s1), s1))"

definition getSOC :: "'e platform \<Rightarrow> 'e sys \<Rightarrow> real \<times> 'e sys" where
  "getSOC hw s =
     (case readReg16Bit hw (regRepSOC (regs (drv s))) s of
        (soc, s1) \<Rightarrow> (real (unat soc) * SOC_multiplier (drv s1), s1))"

definition getTimeToEmpty :: "'e platform \<Rightarrow> 'e sys \<Rightarrow> real \<times> 'e sys" where
  "getTimeToEmpty hw s =
     (case readReg16Bit hw (regTimeToEmpty (regs (drv s))) s of
        (tte, s1) \<Rightarrow>
          if tte = 0xFFFF then (- 1, s1)
          else (real (unat tte) * time_multiplier_Hours (drv s1), s1))"

definition getTemp :: "'e platform \<Rightarrow> 'e sys \<Rightarrow> real \<times> 'e sys" where
  "getTemp hw s =
     (case readReg16Bit hw (regTemp (regs (drv s))) s of
        (tempRaw, s1) \<Rightarrow> (real_of_int (sint tempRaw) / 256, s1))"

definition getAvgVCell :: "'e platform \<Rightarrow> 'e sys \<Rightarrow> real \<times> 'e sys" where
  "getAvgVCell hw s =
     (case readReg16Bit hw (regAvgVCell (regs (drv s))) s of
        (avgVcellRaw, s1) \<Rightarrow>
          (real (unat avgVcellRaw) * voltage_multiplier_V (drv s1), s1))"

section \<open>Production test\<close>

text \<open>
  \<open>productionTest\<close> is \<open>void\<close>: its three register values and the voltage are locals, the
  branch on \<open>status == 0xFFFF\<close> returns and the branch on the voltage has an empty body.
\<close>

definition productionTest :: "'e platform \<Rightarrow> 'e sys \<Rightarrow> 'e sys" where
  "productionTest hw s =
     (case getStatus hw s of
        (status, s1) \<Rightarrow>
          (case readReg16Bit hw (regModelCfg (regs (drv s1))) s1 of
             (modelCfg, s2) \<Rightarrow>
               (case readReg16Bit hw (regDesignCap (regs (drv s2))) s2 of
                  (designCapReg, s3) \<Rightarrow>
                    if status = 0xFFFF then s3
                    else (case getVcell hw s3 of
                            (voltage, s4) \<Rightarrow>
                              if voltage < 2.5 \<or> voltage > 4.5 then s4 else s4))))"

section \<open>Polling loops\<close>

text \<open>
  \<open>while (millis() < timeout) { ... delay(10); }\<close>. Whether the loop ends depends on the
  clock of the platform, so the loops are partial: \<open>None\<close> is a loop that never ends.
\<close>

partial_function (option) waitForDNRdataNotReady_loop ::
  "'e platform \<Rightarrow> u32 \<Rightarrow> 'e sys \<Rightarrow> (bool \<times> 'e sys) option" where
  "waitForDNRdataNotReady_loop hw timeout s =
     (if millis hw (dev s) < timeout
      then (case readReg16Bit hw (regFStat (regs (drv s))) s of
              (fstat, s1) \<Rightarrow>
                if fstat AND 0x0001 = 0 then Some (True, s1)
                else waitForDNRdataNotReady_loop hw timeout (do_delay hw 10 s1))
      else Some (False, s))"

definition waitForDNRdataNotReady :: "'e platform \<Rightarrow> 'e sys \<Rightarrow> (bool \<times> 'e sys) option" where
  "waitForDNRdataNotReady hw s =
     waitForDNRdataNotReady_loop hw (millis hw (dev s) + 1000) s"

partial_function (option) waitforModelCFGrefreshReady_loop ::
  "'e platform \<Rightarrow> u32 \<Rightarrow> 'e sys \<Rightarrow> (bool \<times> 'e sys) option" where
  "waitforModelCFGrefreshReady_loop hw timeout s =
     (if millis hw (dev s) < timeout
      then (case readReg16Bit hw (regModelCfg (regs (drv s))) s of
              (modelCfg, s1) \<Rightarrow>
                if modelCfg AND 0x8000 = 0 then Some (True, s1)
                else waitforModelCFGrefreshReady_loop hw timeout (do_delay hw 10 s1))
      else Some (False, s))"

definition waitforModelCFGrefreshReady ::
  "'e platform \<Rightarrow> 'e sys \<Rightarrow> (bool \<times> 'e sys) option" where
  "waitforModelCFGrefreshReady hw s =
     waitforModelCFGrefreshReady_loop hw (millis hw (dev s) + 1000) s"

section \<open>Configuration\<close>

definition clearPORpowerOnReset :: "'e platform \<Rightarrow> 'e sys \<Rightarrow> 'e sys" where
  "clearPORpowerOnReset hw s =
     (case readReg16Bit hw (regStatus (regs (drv s))) s of
        (status, s1) \<Rightarrow>
          writeReg16Bit hw (regStatus (regs (drv s1))) (status AND NOT 0x0002) s1)"

definition calcMultipliers :: "'e platform \<Rightarrow> real \<Rightarrow> 'e sys \<Rightarrow> 'e sys" where
  "calcMultipliers hw r s =
     s\<lparr>drv := (drv s)
          \<lparr>current_multiplier_mV :=
             fround hw (dround hw (dround hw (dround hw (1.5625 / 10 ^ 6) / r) * 1000)),
           capacity_multiplier_mAH :=
             fround hw (dround hw (dround hw (5.0 / 10 ^ 6) / r))\<rparr>\<rparr>"

definition setDesignCap_mAh :: "'e platform \<Rightarrow> long \<Rightarrow> 'e sys \<Rightarrow> 'e sys" where
  "setDesignCap_mAh hw c s =
     (let designCapReg =
            float_to_u16 hw
              (float_div hw (fround hw (real_of_int (sint c)))
                 (capacity_multiplier_mAH (drv s)))
      in writeReg16Bit hw (regDesignCap (regs (drv s))) designCapReg s)"

definition setIchgTerm :: "'e platform \<Rightarrow> u16 \<Rightarrow> 'e sys \<Rightarrow> 'e sys" where
  "setIchgTerm hw i s = writeReg16Bit hw (regIchgTerm (regs (drv s))) i s"

definition setVEmpty :: "'e platform \<Rightarrow> real \<Rightarrow> 'e sys \<Rightarrow> 'e sys" where
  "setVEmpty hw vf s =
     (let ve = float_to_u16 hw (Some (fround hw (vf * 100)));
          ve = push_bit 7 ve OR 0x0A
      in writeReg16Bit hw (regVEmpty (regs (drv s))) ve s)"

definition refreshModelCFG :: "'e platform \<Rightarrow> bool \<Rightarrow> bool \<Rightarrow> byte \<Rightarrow> 'e sys \<Rightarrow> 'e sys" where
  "refreshModelCFG hw r100a vChga modelIDa s =
     (case readReg16Bit hw (regModelCfg (regs (drv s))) s of
        (modelCfg, s1) \<Rightarrow>
          (let modelCfg = modelCfg AND NOT 0x8F00;
               modelCfg = modelCfg OR push_bit 4 (ucast (modelIDa AND 0x0F));
               modelCfg = (if r100a then modelCfg OR 0x2000 else modelCfg);
               modelCfg = (if vChga then modelCfg OR 0x0400 else modelCfg);
               modelCfg = modelCfg OR 0x8000
           in writeReg16Bit hw (regModelCfg (regs (drv s1))) modelCfg s1))"

definition setEZconfig :: "'e platform \<Rightarrow> 'e sys \<Rightarrow> 'e sys option" where
  "setEZconfig hw s =
     (case waitForDNRdataNotReady hw s of
        None \<Rightarrow> None
      | Some (ready, s1) \<Rightarrow>
          (let s2 = setDesignCap_mAh hw (designCap_mAh (drv s1)) s1;
               s3 = setIchgTerm hw (ichgTerm (drv s2)) s2;
               s4 = setVEmpty hw (vEmpty (drv s3)) s3;
               s5 = refreshModelCFG hw (r100 (drv s4)) (vChg (drv s4)) (modelID (drv s4)) s4
           in (case waitforModelCFGrefreshReady hw s5 of
                 None \<Rightarrow> None
               | Some (refreshed, s6) \<Rightarrow> Some s6)))"

section \<open>Hibernate configuration and LEDs\<close>

definition exitHibernate :: "'e platform \<Rightarrow> 'e sys \<Rightarrow> 'e sys" where
  "exitHibernate hw s =
     (let s1 = writeReg16Bit hw (regHibCfg (regs (drv s))) 0x0000 s;
          s2 = writeReg16Bit hw (regStatus (regs (drv s1))) 0x0000 s1
      in do_delay hw 10 s2)"

definition storeHibernateCFG :: "'e platform \<Rightarrow> 'e sys \<Rightarrow> 'e sys" where
  "storeHibernateCFG hw s =
     (case readReg16Bit hw (regHibCfg (regs (drv s))) s of
        (v, s1) \<Rightarrow> s1\<lparr>drv := (drv s1)\<lparr>originalHibernateCFG := v\<rparr>\<rparr>)"

definition restoreHibernateCFG :: "'e platform \<Rightarrow> 'e sys \<Rightarrow> 'e sys" where
  "restoreHibernateCFG hw s =
     writeReg16Bit hw (regHibCfg (regs (drv s))) (originalHibernateCFG (drv s)) s"

definition setLEDCfg1 :: "'e platform \<Rightarrow> 'e sys \<Rightarrow> 'e sys" where
  "setLEDCfg1 hw s = writeReg16Bit hw (regLedCfg1 (regs (drv s))) 0x0570 s"

definition setLEDCfg2 :: "'e platform \<Rightarrow> 'e sys \<Rightarrow> 'e sys" where
  "setLEDCfg2 hw s = writeReg16Bit hw (regLedCfg2 (regs (drv s))) 0x0000 s"

section \<open>Initialization\<close>

definition initialize :: "'e platform \<Rightarrow> 'e sys \<Rightarrow> 'e sys option" where
  "initialize hw s =
     (let s1 = exitHibernate hw s;
          s2 = storeHibernateCFG hw s1
      in (case waitForDNRdataNotReady hw s2 of
            None \<Rightarrow> None
          | Some (ready, s3) \<Rightarrow>
              if \<not> ready then Some s3
              else (let s4 = clearPORpowerOnReset hw s3;
                        s5 = calcMultipliers hw (rSense (drv s4)) s4
                    in (case setEZconfig hw s5 of
                          None \<Rightarrow> None
                        | Some s6 \<Rightarrow>
                            (let s7 = setLEDCfg1 hw s6;
                                 s8 = setLEDCfg2 hw s7
                             in Some (restoreHibernateCFG hw s8))))))"

section \<open>Binary floating-point rounding\<close>

text \<open>
  Rounding to the nearest value of a binary format with \<open>p\<close> significant bits and least
  normal exponent \<open>emin\<close>, ties to the even significand: \<open>float\<close> is \<open>p = 24\<close>,
  \<open>emin = -126\<close>, and a 64-bit \<open>double\<close> is \<open>p = 53\<close>, \<open>emin = -1022\<close>. \<open>binade x\<close> is the
  exponent \<open>e\<close> with \<open>2^e \<le> x < 2^(e+1)\<close> of a positive \<open>x\<close>. Overflow to infinity is not
  represented: a result beyond the largest finite value is rounded as if the exponent had
  no upper limit.
\<close>

definition rne :: "real \<Rightarrow> int" where
  "rne x =
     (let f = \<lfloor>x\<rfloor>; d = x - of_int f
      in if d < 1 / 2 then f
         else if 1 / 2 < d then f + 1
         else if even f then f else f + 1)"

definition binade :: "real \<Rightarrow> int" where
  "binade x =
     (if 1 \<le> x then int (floorlog 2 (nat \<lfloor>x\<rfloor>)) - 1
      else - int (floorlog 2 (nat \<lceil>1 / x\<rceil> - 1)))"

definition round_fp :: "nat \<Rightarrow> int \<Rightarrow> real \<Rightarrow> real" where
  "round_fp p emin x =
     (if x = 0 then 0
      else (let e = max (binade \<bar>x\<bar>) emin;
                u = 2 powi (e - int p + 1)
            in of_int (rne (x / u)) * u))"

text \<open>
  What the theorems below ask of a rounding: it is monotone, and it leaves the integers
  below \<open>2^24\<close> as they are (a \<open>float\<close> represents each of them).
\<close>

definition sound_rounding :: "(real \<Rightarrow> real) \<Rightarrow> bool" where
  "sound_rounding f \<longleftrightarrow>
     (\<forall>x y. x \<le> y \<longrightarrow> f x \<le> f y) \<and> (\<forall>k::int. \<bar>k\<bar> < 2 ^ 24 \<longrightarrow> f (of_int k) = of_int k)"

section \<open>Simulated platforms\<close>

text \<open>
  A bus that returns what was last written, stated for any platform: \<open>content e\<close> is the
  table of register values held in the environment \<open>e\<close>; a read delivers both bytes of
  the addressed entry (low byte first) and changes no entry, a write replaces the
  addressed entry, and time passing changes none.
\<close>

definition returns_last_written :: "'e platform \<Rightarrow> ('e \<Rightarrow> byte \<Rightarrow> u16) \<Rightarrow> bool" where
  "returns_last_written hw content \<longleftrightarrow>
     (\<forall>a r e. fst (wire_request hw a r e)
                = [ucast (content e r), ucast (drop_bit 8 (content e r))] \<and>
              content (snd (wire_request hw a r e)) = content e) \<and>
     (\<forall>a r lo hi e. content (wire_send hw a [r, lo, hi] e)
                = (content e)(r := ucast lo OR push_bit 8 (ucast hi))) \<and>
     (\<forall>n e. content (delay hw n e) = content e)"

text \<open>
  Such a bus with nothing else: the chip is a table of 16-bit registers that changes only
  when the driver writes, every read delivers both bytes, bus transfers take no time,
  \<open>delay(n)\<close> advances the 32-bit clock by \<open>n\<close>, and arithmetic is exact.
\<close>

record ram =
  mem :: "byte \<Rightarrow> u16"
  clk :: u32

definition ram_hw :: "ram platform" where
  "ram_hw =
     \<lparr>wire_request = (\<lambda>a r e. ([ucast (mem e r), ucast (drop_bit 8 (mem e r))], e)),
      wire_send = (\<lambda>a bs e. case bs of
                      [r, lo, hi] \<Rightarrow> e\<lparr>mem := (mem e)(r := ucast lo OR push_bit 8 (ucast hi))\<rparr>
                    | _ \<Rightarrow> e),
      millis = clk,
      delay = (\<lambda>n e. e\<lparr>clk := clk e + of_nat n\<rparr>),
      cast_oor = (\<lambda>x. 0),
      fround = (\<lambda>x. x),
      dround = (\<lambda>x. x)\<rparr>"

text \<open>The same platform with IEEE arithmetic: a 32-bit \<open>float\<close> and a 64-bit \<open>double\<close>.\<close>

definition ieee_hw :: "ram platform" where
  "ieee_hw = ram_hw\<lparr>fround := round_fp 24 (- 126), dround := round_fp 53 (- 1022)\<rparr>"

text \<open>The same platform with no chip on the bus: every request delivers no byte.\<close>

definition absent_hw :: "ram platform" where
  "absent_hw = ram_hw\<lparr>wire_request := (\<lambda>a r e. ([], e))\<rparr>"

text \<open>
  An object for the examples: the register addresses of the MAX17263 data sheet, a
  10 milliohm sense resistor, and the scale factors of the data sheet (78.125 microvolt,
  1/256 percent and 5.625 seconds per LSB).
\<close>

definition datasheet_regs :: regmap where
  "datasheet_regs =
     \<lparr>regStatus = 0x00, regFStat = 0x3D, regDesignCap = 0x18, regIchgTerm = 0x1E,
      regVEmpty = 0x3A, regModelCfg = 0xDB, regHibCfg = 0xBA, regVCell = 0x09,
      regAvgVCell = 0x19, regCurrent = 0x0A, regRepCap = 0x05, regRepSOC = 0x06,
      regTimeToEmpty = 0x11, regTemp = 0x08, regLedCfg1 = 0x40, regLedCfg2 = 0x4B\<rparr>"

definition example_driver :: max17263 where
  "example_driver =
     \<lparr>regs = datasheet_regs, I2CAddress = 0x36, rSense = 1 / 100, designCap_mAh = 20,
      ichgTerm = 0x0640, vEmpty = 3.3, r100 = False, vChg = True, modelID = 0,
      current_multiplier_mV = 0.15625, capacity_multiplier_mAH = 0.0005,
      voltage_multiplier_V = 0.000078125, SOC_multiplier = 1 / 256,
      time_multiplier_Hours = 5.625 / 3600, originalHibernateCFG = 0\<rparr>"

definition example_sys :: "(byte \<Rightarrow> u16) \<Rightarrow> u32 \<Rightarrow> ram sys" where
  "example_sys m t = \<lparr>drv = example_driver, dev = \<lparr>mem = m, clk = t\<rparr>, wlog = []\<rparr>"

text \<open>Two states have the same derived calibration constants.\<close>

definition same_multipliers :: "'e sys \<Rightarrow> 'e sys \<Rightarrow> bool" where
  "same_multipliers s s' =
     (current_multiplier_mV (drv s') = current_multiplier_mV (drv s) \<and>
      capacity_multiplier_mAH (drv s') = capacity_multiplier_mAH (drv s))"


section \<open>Register access: basic facts\<close>

lemma readReg16Bit_drv [simp]: "drv (snd (readReg16Bit hw reg s)) = drv s"
  by (simp add: readReg16Bit_def split: prod.splits)

lemma readReg16Bit_wlog [simp]: "wlog (snd (readReg16Bit hw reg s)) = wlog s"
  by (simp add: readReg16Bit_def split: prod.splits)

lemma writeReg16Bit_drv [simp]: "drv (writeReg16Bit hw reg v s) = drv s"
  by (simp add: writeReg16Bit_def)

lemma writeReg16Bit_wlog [simp]: "wlog (writeReg16Bit hw reg v s) = wlog s @ [(reg, v)]"
  by (simp add: writeReg16Bit_def)

lemma do_delay_drv [simp]: "drv (do_delay hw n s) = drv s"
  by (simp add: do_delay_def)

lemma do_delay_wlog [simp]: "wlog (do_delay hw n s) = wlog s"
  by (simp add: do_delay_def)

lemma bytes_roundtrip:
  "ucast (ucast (v::u16) :: byte) OR push_bit 8 (ucast (ucast (drop_bit 8 v) :: byte)) = v"
  by (rule bit_word_eqI) (auto simp: bit_simps)

lemma low_byte_mask: "(ucast ((v::u16) AND 0xFF) :: byte) = ucast v"
proof -
  have "(ucast (v AND mask 8) :: byte) = ucast v"
    by (rule bit_word_eqI) (auto simp: bit_simps)
  then show ?thesis
    by (simp add: mask_eq_exp_minus_1)
qed

lemma ram_read [simp]: "readReg16Bit ram_hw reg s = (mem (dev s) reg, s)"
  by (simp add: readReg16Bit_def ram_hw_def bytes_roundtrip)

lemma ram_write [simp]:
  "writeReg16Bit ram_hw reg v s =
     s\<lparr>dev := (dev s)\<lparr>mem := (mem (dev s))(reg := v)\<rparr>, wlog := wlog s @ [(reg, v)]\<rparr>"
  by (simp add: writeReg16Bit_def ram_hw_def low_byte_mask bytes_roundtrip)

lemma ram_delay [simp]: "do_delay ram_hw n s = s\<lparr>dev := (dev s)\<lparr>clk := clk (dev s) + of_nat n\<rparr>\<rparr>"
  by (simp add: do_delay_def ram_hw_def)

lemma ram_millis [simp]: "millis ram_hw e = clk e"
  by (simp add: ram_hw_def)

section \<open>Rounding: basic facts\<close>

lemma binade_bounds:
  assumes "0 < x"
  shows "2 powi binade x \<le> x \<and> x < 2 powi (binade x + 1)"
proof (cases "1 \<le> x")
  case True
  let ?n = "nat \<lfloor>x\<rfloor>"
  let ?L = "floorlog 2 ?n"
  have n: "0 < ?n" using True by simp
  from floorlog_bounds [OF n, of 2]
  have b: "2 ^ (?L - 1) \<le> ?n" "?n < 2 ^ ?L" by simp_all
  have L: "0 < ?L" using b(2) n by (cases ?L) auto
  have nx: "real ?n \<le> x" "x < real ?n + 1"
    using True by linarith+
  have "real (2 ^ (?L - 1)) \<le> real ?n"
    using b(1) by (rule of_nat_mono)
  then have lo: "(2::real) ^ (?L - 1) \<le> real ?n"
    by simp
  have "Suc ?n \<le> 2 ^ ?L"
    using b(2) by (rule Suc_leI)
  then have "real (Suc ?n) \<le> real (2 ^ ?L)"
    by (rule of_nat_mono)
  then have hi: "real ?n + 1 \<le> (2::real) ^ ?L"
    by simp
  have e: "binade x = int ?L - 1"
    using True by (simp add: binade_def)
  have p1: "(2::real) powi (int ?L - 1) = 2 ^ (?L - 1)"
    using L by (simp add: power_int_def nat_diff_distrib)
  have p2: "(2::real) powi (int ?L - 1 + 1) = 2 ^ ?L"
    by (simp add: power_int_def)
  show ?thesis
    unfolding e p1 p2 using nx lo hi by linarith
next
  case False
  let ?y = "1 / x"
  let ?m = "nat \<lceil>?y\<rceil> - 1"
  let ?L = "floorlog 2 ?m"
  have y: "1 < ?y" using False assms by simp
  then have c: "2 \<le> \<lceil>?y\<rceil>" by linarith
  then have m: "0 < ?m" by simp
  from floorlog_bounds [OF m, of 2]
  have b: "2 ^ (?L - 1) \<le> ?m" "?m < 2 ^ ?L" by simp_all
  have L: "0 < ?L" using b(2) m by (cases ?L) auto
  have "int ?m = \<lceil>?y\<rceil> - 1"
    using c by linarith
  then have "real_of_int (int ?m) = real_of_int (\<lceil>?y\<rceil> - 1)"
    by (rule arg_cong)
  then have mr: "real ?m = real_of_int \<lceil>?y\<rceil> - 1"
    by simp
  have my: "?y \<le> real ?m + 1" "real ?m < ?y"
    unfolding mr by linarith+
  have "real (2 ^ (?L - 1)) \<le> real ?m"
    using b(1) by (rule of_nat_mono)
  then have lo: "(2::real) ^ (?L - 1) \<le> real ?m"
    by simp
  have "Suc ?m \<le> 2 ^ ?L"
    using b(2) by (rule Suc_leI)
  then have "real (Suc ?m) \<le> real (2 ^ ?L)"
    by (rule of_nat_mono)
  then have hi: "real ?m + 1 \<le> (2::real) ^ ?L"
    by simp
  have up: "?y \<le> 2 ^ ?L" and dn: "2 ^ (?L - 1) < ?y"
    using my lo hi by linarith+
  have e: "binade x = - int ?L"
    using False by (simp add: binade_def)
  have p1: "(2::real) powi (- int ?L) = 1 / 2 ^ ?L"
    by (simp add: power_int_def divide_simps)
  have p2: "(2::real) powi (- int ?L + 1) = 1 / 2 ^ (?L - 1)"
    using L by (cases ?L) (simp_all add: power_int_def divide_simps)
  have "1 / 2 ^ ?L \<le> x"
    using up assms by (simp add: divide_simps mult.commute)
  moreover have "x < 1 / 2 ^ (?L - 1)"
    using dn assms by (simp add: divide_simps mult.commute)
  ultimately show ?thesis
    unfolding e p1 p2 by simp
qed

lemma binade_unique:
  assumes "2 powi e \<le> x" and "x < 2 powi (e + 1)"
  shows "binade x = e"
proof -
  have pos: "0 < x"
    using assms(1) by (rule less_le_trans [rotated]) simp
  from binade_bounds [OF pos] have b: "2 powi binade x \<le> x" "x < 2 powi (binade x + 1)"
    by simp_all
  have "(2::real) powi e < 2 powi (binade x + 1)"
    using assms(1) b(2) by linarith
  then have 1: "e < binade x + 1"
    using power_int_increasing [of "binade x + 1" e "2::real"] by (cases "e < binade x + 1") auto
  have "(2::real) powi binade x < 2 powi (e + 1)"
    using assms(2) b(1) by linarith
  then have 2: "binade x < e + 1"
    using power_int_increasing [of "e + 1" "binade x" "2::real"] by (cases "binade x < e + 1") auto
  from 1 2 show ?thesis by simp
qed

lemma rne_of_int [simp]: "rne (of_int k) = k"
  by (simp add: rne_def)

lemma rne_floor: "\<lfloor>x\<rfloor> \<le> rne x" "rne x \<le> \<lfloor>x\<rfloor> + 1"
  by (simp_all add: rne_def Let_def)

lemma rne_mono:
  assumes "x \<le> y"
  shows "rne x \<le> rne y"
proof (cases "\<lfloor>x\<rfloor> < \<lfloor>y\<rfloor>")
  case True
  then show ?thesis
    using rne_floor(2) [of x] rne_floor(1) [of y] by linarith
next
  case False
  then have f: "\<lfloor>x\<rfloor> = \<lfloor>y\<rfloor>"
    using assms floor_mono [of x y] by linarith
  have "x - of_int \<lfloor>y\<rfloor> \<le> y - of_int \<lfloor>y\<rfloor>"
    using assms by simp
  then show ?thesis
    by (auto simp: rne_def Let_def f)
qed

lemma rne_minus: "rne (- x) = - rne x"
proof (cases "x = of_int \<lfloor>x\<rfloor>")
  case True
  define k where "k = \<lfloor>x\<rfloor>"
  have x: "x = of_int k"
    using True k_def by simp
  have "rne (of_int (- k)) = - k"
    by (rule rne_of_int)
  then show ?thesis
    unfolding x by simp
next
  case False
  then have fl: "\<lfloor>- x\<rfloor> = - \<lfloor>x\<rfloor> - 1"
    by (simp add: floor_minus ceiling_altdef)
  have d: "- x - of_int (- \<lfloor>x\<rfloor> - 1) = 1 - (x - of_int \<lfloor>x\<rfloor>)"
    by simp
  show ?thesis
    unfolding rne_def Let_def fl d by auto
qed

lemma powi_2_add: "(2::real) powi a * 2 powi b = 2 powi (a + b)"
  by (simp add: power_int_add)

lemma pow_2_powi: "(2::real) ^ n = 2 powi int n"
  by (simp add: power_int_def)

lemma rne_power2 [simp]: "rne (2 ^ n) = 2 ^ n"
  using rne_of_int [of "2 ^ n"] by simp

lemma round_fp_zero [simp]: "round_fp p emin 0 = 0"
  by (simp add: round_fp_def)

lemma round_fp_minus: "round_fp p emin (- x) = - round_fp p emin x"
  by (simp add: round_fp_def Let_def rne_minus)

lemma round_fp_eval:
  assumes "2 powi e \<le> \<bar>x\<bar>" and "\<bar>x\<bar> < 2 powi (e + 1)"
  shows "round_fp p emin x =
           of_int (rne (x / 2 powi (max e emin - int p + 1))) * 2 powi (max e emin - int p + 1)"
proof -
  have "binade \<bar>x\<bar> = e"
    using assms by (rule binade_unique)
  moreover have "x \<noteq> 0"
  proof
    assume "x = 0"
    with assms(1) have "(2::real) powi e \<le> 0" by simp
    moreover have "0 < (2::real) powi e" by (rule zero_less_power_int) simp
    ultimately show False by linarith
  qed
  ultimately show ?thesis
    by (simp add: round_fp_def Let_def)
qed

lemma binade_mono:
  assumes "0 < x" and "x \<le> y"
  shows "binade x \<le> binade y"
proof (rule ccontr)
  assume "\<not> binade x \<le> binade y"
  then have "binade y + 1 \<le> binade x" by simp
  then have "(2::real) powi (binade y + 1) \<le> 2 powi binade x"
    by (intro power_int_increasing) simp_all
  moreover have "y < 2 powi (binade y + 1)" "2 powi binade x \<le> x"
    using binade_bounds [of x] binade_bounds [of y] assms by simp_all
  ultimately show False
    using assms(2) by linarith
qed

lemma round_fp_nonneg:
  assumes "0 \<le> x"
  shows "0 \<le> round_fp p emin x"
proof (cases "x = 0")
  case False
  let ?u = "(2::real) powi (max (binade \<bar>x\<bar>) emin - int p + 1)"
  have "0 \<le> x / ?u"
    using assms by simp
  then have "rne 0 \<le> rne (x / ?u)"
    by (rule rne_mono)
  then have "0 \<le> rne (x / ?u)"
    using rne_of_int [of 0] by simp
  then show ?thesis
    using False by (simp add: round_fp_def Let_def)
qed simp

lemma round_fp_mono_pos:
  assumes p: "0 < p" and x: "0 < x" and xy: "x \<le> y"
  shows "round_fp p emin x \<le> round_fp p emin y"
proof -
  let ?ex = "max (binade x) emin" and ?ey = "max (binade y) emin"
  let ?ux = "(2::real) powi (?ex - int p + 1)" and ?uy = "(2::real) powi (?ey - int p + 1)"
  have y: "0 < y" using x xy by simp
  have rx: "round_fp p emin x = of_int (rne (x / ?ux)) * ?ux"
    and ry: "round_fp p emin y = of_int (rne (y / ?uy)) * ?uy"
    using x y by (simp_all add: round_fp_def Let_def)
  have ux: "0 < ?ux" and uy: "0 < ?uy" by simp_all
  have le: "?ex \<le> ?ey"
    using binade_mono [OF x xy] by simp
  show ?thesis
  proof (cases "?ex = ?ey")
    case True
    have "x / ?uy \<le> y / ?uy"
      using xy uy by (simp add: divide_right_mono)
    then have "rne (x / ?uy) \<le> rne (y / ?uy)"
      by (rule rne_mono)
    then have "real_of_int (rne (x / ?uy)) * ?uy \<le> real_of_int (rne (y / ?uy)) * ?uy"
      using uy by (simp add: mult_right_mono)
    then show ?thesis
      unfolding rx ry True .
  next
    case False
    with le have lt: "?ex < ?ey" by (rule le_neq_trans)
    then have ey: "?ey = binade y" by linarith
    \<comment> \<open>the rounded value of x does not exceed the end of its binade\<close>
    have "x < 2 powi (binade x + 1)"
      using binade_bounds [OF x] by simp
    also have "\<dots> \<le> 2 powi (?ex + 1)"
      by (intro power_int_increasing) simp_all
    finally have "x \<le> 2 powi (?ex + 1)" by simp
    then have "x / ?ux \<le> 2 powi (?ex + 1) / ?ux"
      using ux by (simp add: divide_right_mono)
    also have "2 powi (?ex + 1) / ?ux = (2::real) powi (int p)"
      by (simp flip: power_int_diff)
    also have "\<dots> = of_int (2 ^ p)"
      by (simp add: power_int_def)
    finally have "rne (x / ?ux) \<le> rne (of_int (2 ^ p))"
      by (rule rne_mono)
    then have "real_of_int (rne (x / ?ux)) \<le> 2 ^ p"
      by simp
    then have "real_of_int (rne (x / ?ux)) * ?ux \<le> 2 ^ p * ?ux"
      using ux by (simp add: mult_right_mono)
    also have "2 ^ p * ?ux = 2 powi (?ex + 1)"
    proof -
      have "(2::real) ^ p * ?ux = 2 powi (int p + (?ex - int p + 1))"
        by (simp only: pow_2_powi powi_2_add)
      then show ?thesis by simp
    qed
    finally have a: "round_fp p emin x \<le> 2 powi (?ex + 1)"
      unfolding rx .
    \<comment> \<open>the rounded value of y is not below the start of its binade\<close>
    have "2 powi ?ey \<le> y"
      using binade_bounds [OF y] ey by simp
    then have "2 powi ?ey / ?uy \<le> y / ?uy"
      using uy by (simp add: divide_right_mono)
    moreover have "2 powi ?ey / ?uy = (2::real) powi (int p - 1)"
      by (simp flip: power_int_diff)
    moreover have "(2::real) powi (int p - 1) = of_int (2 ^ (p - 1))"
      using p by (simp add: power_int_def nat_diff_distrib)
    ultimately have "of_int (2 ^ (p - 1)) \<le> y / ?uy" by simp
    then have "rne (of_int (2 ^ (p - 1))) \<le> rne (y / ?uy)"
      by (rule rne_mono)
    then have "real_of_int (rne (of_int (2 ^ (p - 1)))) \<le> real_of_int (rne (y / ?uy))"
      by (simp only: of_int_le_iff)
    then have r1: "2 ^ (p - 1) \<le> real_of_int (rne (y / ?uy))"
      by simp
    have r2: "2 ^ (p - 1) * ?uy \<le> real_of_int (rne (y / ?uy)) * ?uy"
      using r1 by (rule mult_right_mono) simp
    have r3: "2 ^ (p - 1) * ?uy = 2 powi ?ey"
    proof -
      have "int (p - 1) = int p - 1" using p by simp
      then have "(2::real) ^ (p - 1) * ?uy = 2 powi (int p - 1 + (?ey - int p + 1))"
        by (simp only: pow_2_powi powi_2_add)
      then show ?thesis by simp
    qed
    have b: "2 powi ?ey \<le> round_fp p emin y"
      unfolding ry using r2 r3 by linarith
    have "?ex + 1 \<le> ?ey"
      using lt by linarith
    then have "(2::real) powi (?ex + 1) \<le> 2 powi ?ey"
      by (rule power_int_increasing) simp
    with a b show ?thesis by linarith
  qed
qed

lemma round_fp_mono:
  assumes "0 < p" and "x \<le> y"
  shows "round_fp p emin x \<le> round_fp p emin y"
proof -
  consider "0 < x" | "x \<le> 0" "0 \<le> y" | "y < 0" by linarith
  then show ?thesis
  proof cases
    case 1
    then show ?thesis using assms by (intro round_fp_mono_pos)
  next
    case 2
    have "round_fp p emin x = - round_fp p emin (- x)"
      by (simp add: round_fp_minus)
    moreover have "0 \<le> round_fp p emin (- x)"
      using 2(1) by (intro round_fp_nonneg) simp
    moreover have "0 \<le> round_fp p emin y"
      using 2(2) by (rule round_fp_nonneg)
    ultimately show ?thesis by linarith
  next
    case 3
    have "round_fp p emin (- y) \<le> round_fp p emin (- x)"
      using 3 assms by (intro round_fp_mono_pos) simp_all
    then show ?thesis
      by (simp add: round_fp_minus)
  qed
qed

lemma round_fp_of_int:
  assumes "\<bar>k\<bar> < 2 ^ p" and "emin \<le> 0" and "0 < p"
  shows "round_fp p emin (of_int k) = of_int k"
proof (cases "k = 0")
  case False
  let ?x = "\<bar>real_of_int k\<bar>"
  let ?e = "max (binade ?x) emin"
  have x1: "1 \<le> ?x" using False by (simp flip: of_int_abs)
  have "?x < 2 ^ p" using assms(1) by (metis of_int_abs of_int_less_numeral_power_cancel_iff)
  have b: "2 powi binade ?x \<le> ?x" "?x < 2 powi (binade ?x + 1)"
    using binade_bounds [of ?x] x1 by simp_all
  have "(2::real) powi binade ?x < 2 powi (int p)"
    using b(1) \<open>?x < 2 ^ p\<close> by (simp add: power_int_def)
  then have hi: "binade ?x < int p"
    using power_int_increasing [of "int p" "binade ?x" "2::real"] by (cases "binade ?x < int p") auto
  have "(2::real) powi 0 < 2 powi (binade ?x + 1)"
    using b(2) x1 by simp
  then have lo: "0 \<le> binade ?x"
    using power_int_increasing [of "binade ?x + 1" 0 "2::real"] by (cases "0 \<le> binade ?x") auto
  have e: "?e = binade ?x" using lo assms(2) by simp
  define n where "n = nat (int p - 1 - binade ?x)"
  have u: "(2::real) powi (?e - int p + 1) = 1 / 2 ^ n"
  proof -
    have "?e - int p + 1 = - int n" using hi e by (simp add: n_def)
    then show ?thesis by (simp add: power_int_def divide_simps)
  qed
  have "real_of_int k / (1 / 2 ^ n) = of_int (k * 2 ^ n)" by simp
  then have "rne (real_of_int k / (1 / 2 ^ n)) = k * 2 ^ n"
    by (simp only: rne_of_int)
  then show ?thesis
    using False by (simp add: round_fp_def Let_def u)
qed simp

section \<open>Short reads\<close>

text \<open>
  Claim C8. For every register address: when fewer than two bytes are available after the
  read request, \<open>readReg16Bit\<close> returns 0, as it does for a register that holds 0. Its only
  result is the 16-bit value, and it leaves the object and the write log as they were:
  nothing is raised and nothing tells the caller of the shortfall.
\<close>

theorem readReg16Bit_short_read:
  "length (fst (wire_request hw (I2CAddress (drv s)) reg (dev s))) < 2 \<Longrightarrow>
   fst (readReg16Bit hw reg s) = 0 \<and>
   drv (snd (readReg16Bit hw reg s)) = drv s \<and>
   wlog (snd (readReg16Bit hw reg s)) = wlog s"
  by (auto simp: readReg16Bit_def split: prod.splits)

text \<open>With no chip on the bus, reading register 0x09 gives 0.\<close>

theorem readReg16Bit_short_read_witness:
  "length (fst (wire_request absent_hw (I2CAddress (drv (example_sys (\<lambda>r. 0x1234) 0)))
                  0x09 (dev (example_sys (\<lambda>r. 0x1234) 0)))) < 2 \<and>
   fst (readReg16Bit absent_hw 0x09 (example_sys (\<lambda>r. 0x1234) 0)) = 0"
  using readReg16Bit_short_read [of absent_hw "example_sys (\<lambda>r. 0x1234) 0" "0x09"]
  by (simp add: absent_hw_def)


section \<open>The model configuration word\<close>

lemma refreshModelCFG_written:
  "last (wlog (refreshModelCFG hw a b m s)) =
     (regModelCfg (regs (drv s)),
      ((((fst (readReg16Bit hw (regModelCfg (regs (drv s))) s) AND NOT 0x8F00)
          OR push_bit 4 (ucast (m AND 0x0F)))
         OR (if a then 0x2000 else 0))
        OR (if b then 0x0400 else 0))
       OR 0x8000)"
  by (simp add: refreshModelCFG_def Let_def split_beta)

lemma modelID_field:
  "(p::u16) AND 0xF0 = 0 \<Longrightarrow>
   (((((p AND NOT 0x8F00) OR push_bit 4 (ucast ((m::byte) AND 0x0F)))
        OR (if a then 0x2000 else 0)) OR (if b then 0x0400 else 0)) OR 0x8000) AND 0xF0
   = push_bit 4 (ucast (m AND 0x0F))"
proof -
  assume p: "p AND 0xF0 = 0"
  have m: "push_bit 4 (ucast (m AND 0x0F) :: u16) AND 0xF0 = push_bit 4 (ucast (m AND 0x0F))"
  proof -
    have "push_bit 4 (ucast (m AND mask 4) :: u16) AND push_bit 4 (mask 4)
            = push_bit 4 (ucast (m AND mask 4))"
      by (rule bit_word_eqI) (auto simp: bit_simps)
    then show ?thesis by (simp add: mask_eq_exp_minus_1)
  qed
  have "(p AND q) AND 0xF0 = (p AND 0xF0) AND q" for q
    by (simp add: ac_simps)
  then have k: "(p AND q) AND 0xF0 = 0" for q
    using p by simp
  show ?thesis
    by (cases a; cases b; simp add: bit.conj_disj_distrib2 m k)
qed

text \<open>
  Claim C3, as the code has it. \<open>refreshModelCFG\<close> writes one value to the ModelCfg
  register. For every prior content of the register and all arguments, the written value
  has bit 15 set, bit 10 equal to \<open>vChg\<close>, bits 11, 9 and 8 cleared, and bits 14, 12 and
  3 to 0 equal to their prior values. Bit 13 is set when \<open>r100\<close> is true and keeps its
  prior value otherwise: the function only ever sets it. Every bit of the low nibble of
  \<open>modelID\<close> that is set is set in bits 7 to 4, and when the prior bits 7 to 4 are zero
  the field equals the low nibble of \<open>modelID\<close>.
\<close>

theorem refreshModelCFG_written_bits:
  assumes "fst (readReg16Bit hw (regModelCfg (regs (drv s))) s) = prior"
    and "last (wlog (refreshModelCFG hw a b m s)) = (reg, v)"
  shows "reg = regModelCfg (regs (drv s)) \<and>
         bit v 15 \<and> (bit v 13 \<longleftrightarrow> a \<or> bit prior 13) \<and> (bit v 10 \<longleftrightarrow> b) \<and>
         \<not> bit v 11 \<and> \<not> bit v 9 \<and> \<not> bit v 8 \<and>
         (bit v 14 \<longleftrightarrow> bit prior 14) \<and> (bit v 12 \<longleftrightarrow> bit prior 12) \<and>
         (bit v 3 \<longleftrightarrow> bit prior 3) \<and> (bit v 2 \<longleftrightarrow> bit prior 2) \<and>
         (bit v 1 \<longleftrightarrow> bit prior 1) \<and> (bit v 0 \<longleftrightarrow> bit prior 0) \<and>
         (bit m 0 \<longrightarrow> bit v 4) \<and> (bit m 1 \<longrightarrow> bit v 5) \<and>
         (bit m 2 \<longrightarrow> bit v 6) \<and> (bit m 3 \<longrightarrow> bit v 7) \<and>
         (prior AND 0xF0 = 0 \<longrightarrow> v AND 0xF0 = push_bit 4 (ucast (m AND 0x0F)))"
proof -
  have v: "v = ((((prior AND NOT 0x8F00) OR push_bit 4 (ucast (m AND 0x0F)))
                  OR (if a then 0x2000 else 0)) OR (if b then 0x0400 else 0)) OR 0x8000"
    and reg: "reg = regModelCfg (regs (drv s))"
    using assms by (simp_all add: refreshModelCFG_written)
  have hi: "bit v 15" "bit v 13 \<longleftrightarrow> a \<or> bit prior 13" "bit v 10 \<longleftrightarrow> b"
       "\<not> bit v 11" "\<not> bit v 9" "\<not> bit v 8"
       "bit v 14 \<longleftrightarrow> bit prior 14" "bit v 12 \<longleftrightarrow> bit prior 12"
    unfolding v by (auto simp: bit_simps)
  have lo: "bit v 3 \<longleftrightarrow> bit prior 3" "bit v 2 \<longleftrightarrow> bit prior 2"
       "bit v 1 \<longleftrightarrow> bit prior 1" "bit v 0 \<longleftrightarrow> bit prior 0"
    unfolding v by (auto simp: bit_simps)
  have mid: "bit m 0 \<longrightarrow> bit v 4" "bit m 1 \<longrightarrow> bit v 5" "bit m 2 \<longrightarrow> bit v 6" "bit m 3 \<longrightarrow> bit v 7"
    unfolding v by (auto simp: bit_simps)
  have fld: "prior AND 0xF0 = 0 \<longrightarrow> v AND 0xF0 = push_bit 4 (ucast (m AND 0x0F))"
    unfolding v using modelID_field [of prior m a b] by blast
  from reg hi lo mid fld show ?thesis by blast
qed

text \<open>
  Prior content 0x5A0F, \<open>r100\<close> true, \<open>vChg\<close> false, model 6: the register receives
  0xF06F.
\<close>

theorem refreshModelCFG_written_bits_witness:
  "fst (readReg16Bit ram_hw (regModelCfg (regs (drv (example_sys (\<lambda>r. 0x5A0F) 0))))
          (example_sys (\<lambda>r. 0x5A0F) 0)) = 0x5A0F \<and>
   last (wlog (refreshModelCFG ram_hw True False 0x06 (example_sys (\<lambda>r. 0x5A0F) 0)))
     = (0xDB, 0xF06F) \<and>
   bit (0xF06F :: u16) 15 \<and> bit (0xF06F :: u16) 13 \<and> \<not> bit (0xF06F :: u16) 10 \<and>
   bit (0x06 :: byte) 1 \<and> bit (0xF06F :: u16) 5 \<and>
   (0x5A0F :: u16) AND 0xF0 = 0 \<and>
   (0xF06F :: u16) AND 0xF0 = push_bit 4 (ucast ((0x06 :: byte) AND 0x0F))"
proof -
  have r: "fst (readReg16Bit ram_hw (regModelCfg (regs (drv (example_sys (\<lambda>r. 0x5A0F) 0))))
          (example_sys (\<lambda>r. 0x5A0F) 0)) = 0x5A0F"
    by (simp add: example_sys_def)
  have w: "last (wlog (refreshModelCFG ram_hw True False 0x06 (example_sys (\<lambda>r. 0x5A0F) 0)))
     = (0xDB, 0xF06F)"
    by (simp add: refreshModelCFG_def example_sys_def example_driver_def datasheet_regs_def)
  from refreshModelCFG_written_bits [OF r w] r w show ?thesis
    by simp
qed

text \<open>
  Bit 13 does not always equal \<open>r100\<close>: with prior content 0x2000 and \<open>r100\<close> false
  the register receives 0xA000, where bit 13 is still set.
\<close>

theorem refreshModelCFG_bit13_counterexample:
  "fst (readReg16Bit ram_hw (regModelCfg (regs (drv (example_sys (\<lambda>r. 0x2000) 0))))
          (example_sys (\<lambda>r. 0x2000) 0)) = 0x2000 \<and>
   last (wlog (refreshModelCFG ram_hw False False 0 (example_sys (\<lambda>r. 0x2000) 0)))
     = (0xDB, 0xA000) \<and>
   \<not> (bit (0xA000 :: u16) 13 \<longleftrightarrow> False)"
  by (simp add: refreshModelCFG_def example_sys_def example_driver_def datasheet_regs_def)


section \<open>Time to empty\<close>

text \<open>
  Claim C5. For every 16-bit raw value read from the TimeToEmpty register,
  \<open>getTimeToEmpty\<close> returns -1 exactly when the raw value is 0xFFFF, and the raw value
  times the time scale factor for every other raw value. The scale factor is a constant
  of the header; it is taken to be non-negative, as a time per LSB is.
\<close>

theorem getTimeToEmpty_sentinel:
  assumes "0 \<le> time_multiplier_Hours (drv s)"
    and "fst (readReg16Bit hw (regTimeToEmpty (regs (drv s))) s) = raw"
  shows "(fst (getTimeToEmpty hw s) = - 1 \<longleftrightarrow> raw = 0xFFFF) \<and>
         (raw \<noteq> 0xFFFF \<longrightarrow>
            fst (getTimeToEmpty hw s) = real (unat raw) * time_multiplier_Hours (drv s))"
proof -
  have "0 \<le> real (unat raw)"
    by (rule of_nat_0_le_iff)
  then have "0 \<le> real (unat raw) * time_multiplier_Hours (drv s)"
    using assms(1) by (rule mult_nonneg_nonneg)
  then have "real (unat raw) * time_multiplier_Hours (drv s) \<noteq> - 1"
    by linarith
  moreover have "drv (snd (readReg16Bit hw (regTimeToEmpty (regs (drv s))) s)) = drv s"
    by simp
  ultimately show ?thesis
    using assms(2) by (auto simp: getTimeToEmpty_def split_beta)
qed

text \<open>Raw value 0xFFFE with 5.625 seconds per LSB: the result is the scaled value.\<close>

theorem getTimeToEmpty_sentinel_witness:
  "0 \<le> time_multiplier_Hours (drv (example_sys (\<lambda>r. 0xFFFE) 0)) \<and>
   fst (readReg16Bit ram_hw (regTimeToEmpty (regs (drv (example_sys (\<lambda>r. 0xFFFE) 0))))
          (example_sys (\<lambda>r. 0xFFFE) 0)) = 0xFFFE \<and>
   (0xFFFE :: u16) \<noteq> 0xFFFF \<and>
   fst (getTimeToEmpty ram_hw (example_sys (\<lambda>r. 0xFFFE) 0)) \<noteq> - 1 \<and>
   fst (getTimeToEmpty ram_hw (example_sys (\<lambda>r. 0xFFFE) 0))
     = real (unat (0xFFFE :: u16)) * (5.625 / 3600)"
proof -
  have t: "0 \<le> time_multiplier_Hours (drv (example_sys (\<lambda>r. 0xFFFE) 0))"
    by (simp add: example_sys_def example_driver_def)
  have r: "fst (readReg16Bit ram_hw (regTimeToEmpty (regs (drv (example_sys (\<lambda>r. 0xFFFE) 0))))
          (example_sys (\<lambda>r. 0xFFFE) 0)) = 0xFFFE"
    by (simp add: example_sys_def)
  have m: "time_multiplier_Hours (drv (example_sys (\<lambda>r. 0xFFFE) 0)) = 5.625 / 3600"
    by (simp add: example_sys_def example_driver_def)
  from getTimeToEmpty_sentinel [OF t r] t r show ?thesis
    unfolding m by simp
qed

section \<open>The calibration constants\<close>

lemma sound_rounding_exact: "sound_rounding (\<lambda>x. x)"
  by (simp add: sound_rounding_def)

lemma sound_rounding_round_fp:
  assumes "24 \<le> p" and "emin \<le> 0"
  shows "sound_rounding (round_fp p emin)"
proof -
  have p: "0 < p"
    using assms(1) by simp
  have "round_fp p emin (of_int k) = of_int k" if "\<bar>k\<bar> < 2 ^ 24" for k
  proof (rule round_fp_of_int [OF _ assms(2) p])
    have "(2::int) ^ 24 \<le> 2 ^ p"
      using assms(1) by (intro power_increasing) simp_all
    with that show "\<bar>k\<bar> < 2 ^ p"
      by linarith
  qed
  then show ?thesis
    using round_fp_mono [OF p] by (simp add: sound_rounding_def)
qed

lemma ieee_hw_rounding [simp]:
  "fround ieee_hw = round_fp 24 (- 126)"
  "dround ieee_hw = round_fp 53 (- 1022)"
  by (simp_all add: ieee_hw_def)

lemma ieee_hw_sound: "sound_rounding (fround ieee_hw)" "sound_rounding (dround ieee_hw)"
  by (simp_all add: sound_rounding_round_fp)

lemma ram_hw_rounding [simp]: "fround ram_hw x = x" "dround ram_hw x = x"
  by (simp_all add: ram_hw_def)

text \<open>Rounding a given value: the binade, the unit in the last place, the significand.\<close>

lemma round_fp_at:
  assumes "2 powi e \<le> \<bar>x\<bar>" and "\<bar>x\<bar> < 2 powi (e + 1)" and "emin \<le> e"
    and "u = 2 powi (e - int p + 1)" and "rne (x / u) = n"
  shows "round_fp p emin x = of_int n * u"
  using round_fp_eval [OF assms(1,2), of p emin] assms(3,4,5) by simp

text \<open>In exact arithmetic the constants are the two quotients, strictly decreasing.\<close>

lemma calcMultipliers_exact:
  assumes "0 < r" and "r < r'"
  shows "current_multiplier_mV (drv (calcMultipliers ram_hw r s)) = 1.5625 / 10 ^ 6 / r * 1000 \<and>
         capacity_multiplier_mAH (drv (calcMultipliers ram_hw r s)) = 5.0 / 10 ^ 6 / r \<and>
         current_multiplier_mV (drv (calcMultipliers ram_hw r' s))
           < current_multiplier_mV (drv (calcMultipliers ram_hw r s)) \<and>
         capacity_multiplier_mAH (drv (calcMultipliers ram_hw r' s))
           < capacity_multiplier_mAH (drv (calcMultipliers ram_hw r s))"
proof -
  have pos: "0 < r' * r"
    using assms by simp
  have "c / r' < c / r" if "0 < c" for c :: real
    using assms(2) that pos by (rule divide_strict_left_mono)
  from this [of "1.5625 / 10 ^ 6"] this [of "5.0 / 10 ^ 6"] show ?thesis
    by (simp add: calcMultipliers_def)
qed

lemma calcMultipliers_capacity:
  "capacity_multiplier_mAH (drv (calcMultipliers hw r s))
     = fround hw (dround hw (dround hw (5.0 / 10 ^ 6) / r))"
  by (simp add: calcMultipliers_def)

text \<open>
  Claim C7, as the code has it. \<open>calcMultipliers r\<close> sets the current multiplier to
  \<open>1.5625e-6 / r * 1000\<close> and the capacity multiplier to \<open>5.0e-6 / r\<close> as floating-point
  arithmetic computes them: the literal, the quotient and the product are rounded to
  \<open>double\<close>, the stored value to \<open>float\<close>. With roundings that are monotone and exact on
  small integers, as the IEEE ones are, neither constant increases when the resistance
  \<open>r > 0\<close> increases.
\<close>

theorem calcMultipliers_values:
  "current_multiplier_mV (drv (calcMultipliers hw r s))
     = fround hw (dround hw (dround hw (dround hw (1.5625 / 10 ^ 6) / r) * 1000)) \<and>
   capacity_multiplier_mAH (drv (calcMultipliers hw r s))
     = fround hw (dround hw (dround hw (5.0 / 10 ^ 6) / r)) \<and>
   (sound_rounding (fround hw) \<and> sound_rounding (dround hw) \<and> 0 < r \<and> r \<le> r' \<longrightarrow>
      current_multiplier_mV (drv (calcMultipliers hw r' s))
        \<le> current_multiplier_mV (drv (calcMultipliers hw r s)) \<and>
      capacity_multiplier_mAH (drv (calcMultipliers hw r' s))
        \<le> capacity_multiplier_mAH (drv (calcMultipliers hw r s)))"
proof -
  have mono: "current_multiplier_mV (drv (calcMultipliers hw r' s))
                \<le> current_multiplier_mV (drv (calcMultipliers hw r s)) \<and>
              capacity_multiplier_mAH (drv (calcMultipliers hw r' s))
                \<le> capacity_multiplier_mAH (drv (calcMultipliers hw r s))"
    if f: "sound_rounding (fround hw)" and d: "sound_rounding (dround hw)"
      and r: "0 < r" "r \<le> r'"
  proof -
    have fm: "fround hw x \<le> fround hw y" if "x \<le> y" for x y
      using f that by (simp add: sound_rounding_def)
    have dm: "dround hw x \<le> dround hw y" if "x \<le> y" for x y
      using d that by (simp add: sound_rounding_def)
    have "dround hw (of_int 0) = of_int 0"
      using d unfolding sound_rounding_def by (metis abs_zero zero_less_numeral zero_less_power)
    then have d0: "dround hw 0 = 0"
      by simp
    have nonneg: "0 \<le> dround hw c" if "0 \<le> c" for c
      using dm [OF that] d0 by simp
    have pos: "0 < r' * r"
      using r by simp
    have quot: "dround hw (dround hw c / r') \<le> dround hw (dround hw c / r)" if "0 \<le> c" for c
      by (intro dm divide_left_mono r nonneg that pos)
    have "dround hw (dround hw (dround hw (1.5625 / 10 ^ 6) / r') * 1000)
            \<le> dround hw (dround hw (dround hw (1.5625 / 10 ^ 6) / r) * 1000)"
      by (intro dm mult_right_mono quot) simp_all
    then have "fround hw (dround hw (dround hw (dround hw (1.5625 / 10 ^ 6) / r') * 1000))
            \<le> fround hw (dround hw (dround hw (dround hw (1.5625 / 10 ^ 6) / r) * 1000))"
      by (rule fm)
    moreover have "fround hw (dround hw (dround hw (5.0 / 10 ^ 6) / r'))
            \<le> fround hw (dround hw (dround hw (5.0 / 10 ^ 6) / r))"
      by (intro fm quot) simp
    ultimately show ?thesis
      by (simp add: calcMultipliers_def)
  qed
  then show ?thesis
    by (simp add: calcMultipliers_def)
qed

text \<open>
  IEEE arithmetic, the floats nearest 0.01 and 0.02 ohm: 8589935 / 2^34 and 8589935 / 2^35
  per LSB of capacity.
\<close>

lemma ieee_literal_5e_6: "round_fp 53 (- 1022) (5.0 / 10 ^ 6) = 5902958103587057 / 2 ^ 70"
proof -
  have "round_fp 53 (- 1022) (5.0 / 10 ^ 6) = of_int 5902958103587057 * (1 / 2 ^ 70)"
    by (rule round_fp_at [where e = "- 18"]) (simp_all add: rne_def power_int_minus divide_simps)
  then show ?thesis by simp
qed

theorem calcMultipliers_values_witness:
  "sound_rounding (fround ieee_hw) \<and> sound_rounding (dround ieee_hw) \<and>
   (0::real) < 5368709 / 2 ^ 29 \<and> (5368709 / 2 ^ 29 :: real) \<le> 5368709 / 2 ^ 28 \<and>
   capacity_multiplier_mAH (drv (calcMultipliers ieee_hw (5368709 / 2 ^ 29) (example_sys (\<lambda>r. 0) 0)))
     = 8589935 / 2 ^ 34 \<and>
   current_multiplier_mV (drv (calcMultipliers ieee_hw (5368709 / 2 ^ 28) (example_sys (\<lambda>r. 0) 0)))
     \<le> current_multiplier_mV
         (drv (calcMultipliers ieee_hw (5368709 / 2 ^ 29) (example_sys (\<lambda>r. 0) 0))) \<and>
   capacity_multiplier_mAH (drv (calcMultipliers ieee_hw (5368709 / 2 ^ 28) (example_sys (\<lambda>r. 0) 0)))
     \<le> capacity_multiplier_mAH
         (drv (calcMultipliers ieee_hw (5368709 / 2 ^ 29) (example_sys (\<lambda>r. 0) 0)))"
proof -
  have a: "(0::real) < 5368709 / 2 ^ 29" and b: "(5368709 / 2 ^ 29 :: real) \<le> 5368709 / 2 ^ 28"
    by simp_all
  have "round_fp 53 (- 1022) (5902958103587057 / 2 ^ 70 / (5368709 / 2 ^ 29))
          = of_int 4611686121506606 * (1 / 2 ^ 63)"
    by (rule round_fp_at [where e = "- 11"]) (simp_all add: rne_def power_int_minus divide_simps)
  then have q: "round_fp 53 (- 1022) (5902958103587057 / 2 ^ 70 / (5368709 / 2 ^ 29))
          = 4611686121506606 / 2 ^ 63"
    by simp
  have "round_fp 24 (- 126) (4611686121506606 / 2 ^ 63) = of_int 8589935 * (1 / 2 ^ 34)"
    by (rule round_fp_at [where e = "- 11"]) (simp_all add: rne_def power_int_minus divide_simps)
  then have m: "round_fp 24 (- 126) (4611686121506606 / 2 ^ 63) = 8589935 / 2 ^ 34"
    by simp
  have c: "capacity_multiplier_mAH
             (drv (calcMultipliers ieee_hw (5368709 / 2 ^ 29) (example_sys (\<lambda>r. 0) 0)))
           = 8589935 / 2 ^ 34"
    by (simp only: calcMultipliers_capacity ieee_hw_rounding ieee_literal_5e_6 q m)
  from calcMultipliers_values [of ieee_hw "5368709 / 2 ^ 29" "example_sys (\<lambda>r. 0) 0"
      "5368709 / 2 ^ 28"] ieee_hw_sound a b c
  show ?thesis
    by blast
qed

text \<open>
  Not strictly: the neighbouring floats 10737421 / 2^30 and 10737422 / 2^30 (bit patterns
  0x3C23D70D and 0x3C23D70E, just below and above 0.01) get the same capacity multiplier,
  2147483 / 2^32 (bit pattern 0x3A03126C).
\<close>

theorem calcMultipliers_not_strict_counterexample:
  "(10737421 / 2 ^ 30 :: real) < 10737422 / 2 ^ 30 \<and>
   capacity_multiplier_mAH (drv (calcMultipliers ieee_hw (10737421 / 2 ^ 30) (example_sys (\<lambda>r. 0) 0)))
     = 2147483 / 2 ^ 32 \<and>
   capacity_multiplier_mAH (drv (calcMultipliers ieee_hw (10737422 / 2 ^ 30) (example_sys (\<lambda>r. 0) 0)))
     = 2147483 / 2 ^ 32 \<and>
   \<not> capacity_multiplier_mAH
         (drv (calcMultipliers ieee_hw (10737422 / 2 ^ 30) (example_sys (\<lambda>r. 0) 0)))
       < capacity_multiplier_mAH
           (drv (calcMultipliers ieee_hw (10737421 / 2 ^ 30) (example_sys (\<lambda>r. 0) 0)))"
proof -
  have "round_fp 53 (- 1022) (5902958103587057 / 2 ^ 70 / (10737421 / 2 ^ 30))
          = of_int 4611684833016719 * (1 / 2 ^ 63)"
    by (rule round_fp_at [where e = "- 11"]) (simp_all add: rne_def power_int_minus divide_simps)
  then have q1: "round_fp 53 (- 1022) (5902958103587057 / 2 ^ 70 / (10737421 / 2 ^ 30))
          = 4611684833016719 / 2 ^ 63"
    by simp
  have "round_fp 24 (- 126) (4611684833016719 / 2 ^ 63) = of_int 8589932 * (1 / 2 ^ 34)"
    by (rule round_fp_at [where e = "- 11"]) (simp_all add: rne_def power_int_minus divide_simps)
  then have m1: "round_fp 24 (- 126) (4611684833016719 / 2 ^ 63) = 2147483 / 2 ^ 32"
    by simp
  have "round_fp 53 (- 1022) (5902958103587057 / 2 ^ 70 / (10737422 / 2 ^ 30))
          = of_int 4611684403520250 * (1 / 2 ^ 63)"
    by (rule round_fp_at [where e = "- 11"]) (simp_all add: rne_def power_int_minus divide_simps)
  then have q2: "round_fp 53 (- 1022) (5902958103587057 / 2 ^ 70 / (10737422 / 2 ^ 30))
          = 4611684403520250 / 2 ^ 63"
    by simp
  have "round_fp 24 (- 126) (4611684403520250 / 2 ^ 63) = of_int 8589932 * (1 / 2 ^ 34)"
    by (rule round_fp_at [where e = "- 11"]) (simp_all add: rne_def power_int_minus divide_simps)
  then have m2: "round_fp 24 (- 126) (4611684403520250 / 2 ^ 63) = 2147483 / 2 ^ 32"
    by simp
  have c1: "capacity_multiplier_mAH
              (drv (calcMultipliers ieee_hw (10737421 / 2 ^ 30) (example_sys (\<lambda>r. 0) 0)))
            = 2147483 / 2 ^ 32"
    by (simp only: calcMultipliers_capacity ieee_hw_rounding ieee_literal_5e_6 q1 m1)
  have c2: "capacity_multiplier_mAH
              (drv (calcMultipliers ieee_hw (10737422 / 2 ^ 30) (example_sys (\<lambda>r. 0) 0)))
            = 2147483 / 2 ^ 32"
    by (simp only: calcMultipliers_capacity ieee_hw_rounding ieee_literal_5e_6 q2 m2)
  show ?thesis
    unfolding c1 c2 by simp
qed

section \<open>The empty voltage register\<close>

lemma setVEmpty_written:
  "last (wlog (setVEmpty hw vf s)) =
     (regVEmpty (regs (drv s)),
      push_bit 7 (float_to_u16 hw (Some (fround hw (vf * 100)))) OR 0x0A)"
  by (simp add: setVEmpty_def Let_def)

lemma VEmpty_low_bits: "(push_bit 7 (x::u16) OR 0x0A) AND 0x7F = 0x0A"
proof -
  have "(push_bit 7 x OR take_bit 7 y) AND mask 7 = take_bit 7 y" for y :: u16
    by (rule bit_word_eqI) (auto simp: bit_simps)
  from this [of "0x0A"] show ?thesis
    by (simp add: mask_eq_exp_minus_1)
qed

lemma VEmpty_high_bits: "drop_bit 7 (push_bit 7 (x::u16) OR 0x0A) = take_bit 9 x"
proof -
  have "drop_bit 7 (push_bit 7 x OR take_bit 7 y) = take_bit 9 x" for y :: u16
    by (rule bit_word_eqI) (auto simp: bit_simps)
  from this [of "0x0A"] show ?thesis
    by simp
qed

lemma VEmpty_unat: "unat (push_bit 7 (x::u16) OR 0x0A) = (unat x * 128 + 10) mod 65536"
proof -
  have "push_bit 7 x + take_bit 7 y = push_bit 7 x OR take_bit 7 y" for y :: u16
    by (rule disjunctive_add) (auto simp: bit_simps)
  from this [of "0x0A"] have "push_bit 7 x OR 0x0A = x * 128 + 0x0A"
    by (simp add: push_bit_eq_mult)
  then show ?thesis
    by (simp add: unat_word_ariths mod_simps)
qed

lemma unat_take_bit_9: "unat (take_bit 9 (x::u16)) = unat x mod 512"
  by (simp add: unsigned_take_bit_eq) (simp add: take_bit_eq_mod)

lemma float_to_u16_in_range:
  assumes "0 \<le> r" and "r < 65536"
  shows "unat (float_to_u16 hw (Some r)) = nat \<lfloor>r\<rfloor>"
proof -
  have "0 \<le> \<lfloor>r\<rfloor>" and "\<lfloor>r\<rfloor> < 65536"
    using assms by linarith+
  then have "unat (word_of_int \<lfloor>r\<rfloor> :: u16) = nat \<lfloor>r\<rfloor>"
    by (simp add: unat_eq_nat_uint uint_word_of_int)
  then show ?thesis
    using assms by (simp add: float_to_u16_def)
qed

text \<open>
  A sound rounding cannot carry a product across an integer: the truncated rounded
  product is less than 1 away from the exact one.
\<close>

lemma rounded_product_near:
  assumes f: "sound_rounding f" and lo: "- 1 < f x" and hi: "f x < 512"
  shows "(f x < 0 \<longrightarrow> - 1 < x \<and> x < 0) \<and>
         (0 \<le> f x \<longrightarrow> real_of_int \<lfloor>f x\<rfloor> - 1 < x \<and> x < real_of_int \<lfloor>f x\<rfloor> + 1)"
proof -
  have mono: "f a \<le> f b" if "a \<le> b" for a b
    using f that by (simp add: sound_rounding_def)
  have int: "f (of_int k) = of_int k" if "\<bar>k\<bar> < 2 ^ 24" for k
    using f that by (simp add: sound_rounding_def)
  have neg: "- 1 < x \<and> x < 0" if "f x < 0"
  proof -
    have "- 1 < x"
    proof (rule ccontr)
      assume "\<not> - 1 < x"
      then have "f x \<le> f (of_int (- 1))" by (intro mono) simp
      with int [of "- 1"] lo show False by simp
    qed
    moreover have "x < 0"
    proof (rule ccontr)
      assume "\<not> x < 0"
      then have "f (of_int 0) \<le> f x" by (intro mono) simp
      with int [of 0] that show False by simp
    qed
    ultimately show ?thesis ..
  qed
  have pos: "real_of_int \<lfloor>f x\<rfloor> - 1 < x \<and> x < real_of_int \<lfloor>f x\<rfloor> + 1" if "0 \<le> f x"
  proof -
    let ?n = "\<lfloor>f x\<rfloor>"
    have n: "0 \<le> ?n" "?n < 512"
      using that hi by linarith+
    have "real_of_int ?n - 1 < x"
    proof (rule ccontr)
      assume "\<not> real_of_int ?n - 1 < x"
      then have "x \<le> of_int (?n - 1)" by simp
      then have "f x \<le> f (of_int (?n - 1))" by (rule mono)
      moreover have "\<bar>?n - 1\<bar> < 2 ^ 24"
      proof -
        have "\<bar>?n - 1\<bar> < 16777216"
          using n by linarith
        then show ?thesis by simp
      qed
      then have "f (of_int (?n - 1)) = of_int (?n - 1)"
        by (rule int)
      ultimately show False by simp linarith
    qed
    moreover have "x < real_of_int ?n + 1"
    proof (rule ccontr)
      assume "\<not> x < real_of_int ?n + 1"
      then have "of_int (?n + 1) \<le> x" by simp
      then have "f (of_int (?n + 1)) \<le> f x" by (rule mono)
      moreover have "\<bar>?n + 1\<bar> < 2 ^ 24"
      proof -
        have "\<bar>?n + 1\<bar> < 16777216"
          using n by linarith
        then show ?thesis by simp
      qed
      then have "f (of_int (?n + 1)) = of_int (?n + 1)"
        by (rule int)
      ultimately show False by simp linarith
    qed
    ultimately show ?thesis ..
  qed
  from neg pos show ?thesis by blast
qed

text \<open>
  Claim C6, as the code has it. The value \<open>setVEmpty v\<close> writes has its lower 7 bits
  equal to 0x0A for every voltage \<open>v\<close>. When the float product \<open>v * 100\<close> that the function
  computes lies strictly between -1 and 512, so that its 10 mV count fits the 9-bit field,
  reading bits 15 to 7 as 10 mV units gives a voltage less than one 10 mV step away from
  \<open>v\<close>. The float rounding is taken to be monotone and exact on small integers, as the IEEE
  one is.
\<close>

theorem setVEmpty_recovers_voltage:
  assumes "last (wlog (setVEmpty hw vf s)) = (reg, v)"
  shows "v AND 0x7F = 0x0A \<and>
         (sound_rounding (fround hw) \<and>
          - 1 < fround hw (vf * 100) \<and> fround hw (vf * 100) < 512 \<longrightarrow>
            \<bar>vf - real (unat (drop_bit 7 v)) / 100\<bar> < 1 / 100)"
proof -
  let ?p = "fround hw (vf * 100)"
  have v: "v = push_bit 7 (float_to_u16 hw (Some ?p)) OR 0x0A"
    using assms by (simp add: setVEmpty_written)
  have low: "v AND 0x7F = 0x0A"
    unfolding v by (rule VEmpty_low_bits)
  have "\<bar>vf - real (unat (drop_bit 7 v)) / 100\<bar> < 1 / 100"
    if f: "sound_rounding (fround hw)" and lo: "- 1 < ?p" and hi: "?p < 512"
  proof (cases "?p < 0")
    case True
    then have "float_to_u16 hw (Some ?p) = 0"
      using lo hi by (simp add: float_to_u16_def)
    then have "drop_bit 7 v = 0"
      unfolding v by (simp only: VEmpty_high_bits) simp
    moreover have "- 1 < vf * 100 \<and> vf * 100 < 0"
      using rounded_product_near [OF f lo hi] True by blast
    ultimately show ?thesis
      by simp
  next
    case False
    then have u: "unat (float_to_u16 hw (Some ?p)) = nat \<lfloor>?p\<rfloor>"
      using hi by (intro float_to_u16_in_range) simp_all
    have n: "0 \<le> \<lfloor>?p\<rfloor>" "\<lfloor>?p\<rfloor> < 512"
      using False hi by linarith+
    have "unat (drop_bit 7 v) = nat \<lfloor>?p\<rfloor> mod 512"
      unfolding v by (simp only: VEmpty_high_bits unat_take_bit_9 u)
    also have "\<dots> = nat \<lfloor>?p\<rfloor>"
    proof (rule mod_less)
      show "nat \<lfloor>?p\<rfloor> < 512"
        using n by linarith
    qed
    finally have "int (unat (drop_bit 7 v)) = \<lfloor>?p\<rfloor>"
      using n(1) by linarith
    then have eq: "real (unat (drop_bit 7 v)) = real_of_int \<lfloor>?p\<rfloor>"
      by (metis of_int_of_nat_eq)
    have "real_of_int \<lfloor>?p\<rfloor> - 1 < vf * 100 \<and> vf * 100 < real_of_int \<lfloor>?p\<rfloor> + 1"
      using rounded_product_near [OF f lo hi] False by simp
    then have a: "real_of_int \<lfloor>?p\<rfloor> - 1 < vf * 100" and b: "vf * 100 < real_of_int \<lfloor>?p\<rfloor> + 1"
      by simp_all
    show ?thesis
      unfolding eq abs_less_iff using a b by linarith
  qed
  with low show ?thesis
    by blast
qed

text \<open>
  IEEE arithmetic and the float nearest 3.3 V, 13841203 / 2^22: the product rounds up to
  330, the register receives 0xA50A, and the upper field 330 stands for 3.30 V.
\<close>

lemma ieee_product_3_3f: "round_fp 24 (- 126) (13841203 / 2 ^ 22 * 100) = 330"
proof -
  have "round_fp 24 (- 126) (13841203 / 2 ^ 22 * 100) = of_int 10813440 * (1 / 2 ^ 15)"
    by (rule round_fp_at [where e = 8]) (simp_all add: rne_def power_int_minus divide_simps)
  then show ?thesis by simp
qed

theorem setVEmpty_recovers_voltage_witness:
  "last (wlog (setVEmpty ieee_hw (13841203 / 2 ^ 22) (example_sys (\<lambda>r. 0) 0))) = (0x3A, 0xA50A) \<and>
   (0xA50A :: u16) AND 0x7F = 0x0A \<and>
   sound_rounding (fround ieee_hw) \<and>
   fround ieee_hw (13841203 / 2 ^ 22 * 100) = 330 \<and>
   unat (drop_bit 7 (0xA50A :: u16)) = 330 \<and>
   \<bar>13841203 / 2 ^ 22 - real (unat (drop_bit 7 (0xA50A :: u16))) / 100\<bar> < 1 / 100"
proof -
  have p: "fround ieee_hw (13841203 / 2 ^ 22 * 100) = 330"
    by (simp only: ieee_hw_rounding ieee_product_3_3f)
  have w: "last (wlog (setVEmpty ieee_hw (13841203 / 2 ^ 22) (example_sys (\<lambda>r. 0) 0)))
             = (0x3A, 0xA50A)"
    unfolding setVEmpty_written p
    by (simp add: float_to_u16_def example_sys_def example_driver_def datasheet_regs_def)
  from setVEmpty_recovers_voltage [OF w] ieee_hw_sound(1) p w show ?thesis
    by simp
qed

text \<open>
  Not for every voltage: 6 V is stored as 0x2C0A, whose upper field is 88, that is
  0.88 V.
\<close>

theorem setVEmpty_6V_counterexample:
  "last (wlog (setVEmpty ieee_hw 6 (example_sys (\<lambda>r. 0) 0))) = (0x3A, 0x2C0A) \<and>
   unat (drop_bit 7 (0x2C0A :: u16)) = 88 \<and>
   \<not> \<bar>6 - real (unat (drop_bit 7 (0x2C0A :: u16))) / 100\<bar> \<le> 1 / 100"
proof -
  have "round_fp 24 (- 126) (of_int 600) = of_int 600"
    by (rule round_fp_of_int) simp_all
  then have p: "fround ieee_hw (6 * 100) = 600"
    by simp
  show ?thesis
    unfolding setVEmpty_written p
    by (simp add: float_to_u16_def example_sys_def example_driver_def datasheet_regs_def)
qed

text \<open>
  The float nearest 5.12 V, 5368709 / 2^20, is below 5.12, but its product with 100 rounds
  to 512: the register receives 0x000A, an upper field of 0.
\<close>

lemma setVEmpty_ieee_5_12f:
  "last (wlog (setVEmpty ieee_hw (5368709 / 2 ^ 20) (example_sys (\<lambda>r. 0) 0))) = (0x3A, 0x000A)"
proof -
  have "round_fp 24 (- 126) (5368709 / 2 ^ 20 * 100) = of_int 16777216 * (1 / 2 ^ 15)"
    by (rule round_fp_at [where e = 8]) (simp_all add: rne_def power_int_minus divide_simps)
  then have p: "fround ieee_hw (5368709 / 2 ^ 20 * 100) = 512"
    by simp
  show ?thesis
    unfolding setVEmpty_written p
    by (simp add: float_to_u16_def example_sys_def example_driver_def datasheet_regs_def)
qed

text \<open>
  Claim C10. When the 10 mV count \<open>(uint16_t)(vf * 100)\<close> is 512 or more, \<open>setVEmpty\<close>
  writes \<open>(count << 7 | 0x0A)\<close> reduced modulo \<open>2^16\<close>: the field in bits 15 to 7 is the
  count modulo 512, which is not the count. The function has no other outcome than the
  write, so nothing reports the wrap-around.
\<close>

theorem setVEmpty_wraps:
  assumes "float_to_u16 hw (Some (fround hw (vf * 100))) = ve"
    and "512 \<le> unat ve"
    and "last (wlog (setVEmpty hw vf s)) = (reg, v)"
  shows "reg = regVEmpty (regs (drv s)) \<and>
         v = push_bit 7 ve OR 0x0A \<and>
         unat v = (unat ve * 2 ^ 7 + 10) mod 2 ^ 16 \<and>
         unat (drop_bit 7 v) = unat ve mod 512 \<and>
         unat (drop_bit 7 v) \<noteq> unat ve"
proof -
  have v: "v = push_bit 7 ve OR 0x0A" and reg: "reg = regVEmpty (regs (drv s))"
    using assms(1,3) by (simp_all add: setVEmpty_written)
  have n: "unat v = (unat ve * 2 ^ 7 + 10) mod 2 ^ 16"
    unfolding v by (simp add: VEmpty_unat)
  have f: "unat (drop_bit 7 v) = unat ve mod 512"
    unfolding v by (simp only: VEmpty_high_bits unat_take_bit_9)
  have "unat ve mod 512 < 512"
    by simp
  then have "unat ve mod 512 \<noteq> unat ve"
    using assms(2) by linarith
  with v reg n f show ?thesis
    by simp
qed

text \<open>5.12 V: the count is 512, the register receives 0x000A and the field is 0.\<close>

theorem setVEmpty_wraps_witness:
  "float_to_u16 ram_hw (Some (fround ram_hw (5.12 * 100))) = 512 \<and> 512 \<le> unat (512 :: u16) \<and>
   last (wlog (setVEmpty ram_hw 5.12 (example_sys (\<lambda>r. 0) 0))) = (0x3A, 0x000A) \<and>
   unat (drop_bit 7 (0x000A :: u16)) = 0 \<and>
   unat (drop_bit 7 (0x000A :: u16)) \<noteq> unat (512 :: u16)"
proof -
  have c: "float_to_u16 ram_hw (Some (fround ram_hw (5.12 * 100))) = 512"
    by (simp add: float_to_u16_def)
  have b: "512 \<le> unat (512 :: u16)"
    by simp
  have w: "last (wlog (setVEmpty ram_hw 5.12 (example_sys (\<lambda>r. 0) 0))) = (0x3A, 0x000A)"
    by (simp add: setVEmpty_def float_to_u16_def example_sys_def example_driver_def
        datasheet_regs_def)
  from setVEmpty_wraps [OF c b w] c b w show ?thesis
    by simp
qed

section \<open>Accessors and setters leave the calibration constants alone\<close>

lemma same_multipliers_drv: "drv s' = drv s \<Longrightarrow> same_multipliers s s'"
  by (simp add: same_multipliers_def)

lemma accessors_drv:
  "drv (snd (getCurrent hw s)) = drv s"
  "drv (snd (getVcell hw s)) = drv s"
  "drv (snd (getAvgVCell hw s)) = drv s"
  "drv (snd (getCapacity_mAh hw s)) = drv s"
  "drv (snd (getSOC hw s)) = drv s"
  "drv (snd (getTimeToEmpty hw s)) = drv s"
  "drv (snd (getTemp hw s)) = drv s"
  "drv (snd (getStatus hw s)) = drv s"
  by (simp_all add: getCurrent_def getVcell_def getAvgVCell_def getCapacity_mAh_def
      getSOC_def getTimeToEmpty_def getTemp_def getStatus_def split_beta)

lemma setters_drv:
  "drv (setDesignCap_mAh hw c s) = drv s"
  "drv (setIchgTerm hw i s) = drv s"
  "drv (setVEmpty hw vf s) = drv s"
  by (simp_all add: setDesignCap_mAh_def setIchgTerm_def setVEmpty_def Let_def)

text \<open>
  Claim C9. The current multiplier and the capacity multiplier that \<open>calcMultipliers\<close>
  derives are left unchanged by every telemetry accessor (\<open>getCurrent\<close>, \<open>getVcell\<close>,
  \<open>getAvgVCell\<close>, \<open>getCapacity_mAh\<close>, \<open>getSOC\<close>, \<open>getTimeToEmpty\<close>, \<open>getTemp\<close>) and by
  every setter (\<open>setDesignCap_mAh\<close>, \<open>setIchgTerm\<close>, \<open>setVEmpty\<close>), from any state.
\<close>

theorem multipliers_unchanged:
  "same_multipliers s (snd (getCurrent hw s)) \<and>
   same_multipliers s (snd (getVcell hw s)) \<and>
   same_multipliers s (snd (getAvgVCell hw s)) \<and>
   same_multipliers s (snd (getCapacity_mAh hw s)) \<and>
   same_multipliers s (snd (getSOC hw s)) \<and>
   same_multipliers s (snd (getTimeToEmpty hw s)) \<and>
   same_multipliers s (snd (getTemp hw s)) \<and>
   same_multipliers s (setDesignCap_mAh hw c s) \<and>
   same_multipliers s (setIchgTerm hw i s) \<and>
   same_multipliers s (setVEmpty hw vf s)"
  by (intro conjI same_multipliers_drv accessors_drv setters_drv)

section \<open>Production test\<close>

lemma accessors_wlog:
  "wlog (snd (getVcell hw s)) = wlog s"
  "wlog (snd (getStatus hw s)) = wlog s"
  by (simp_all add: getVcell_def getStatus_def split_beta)

text \<open>
  Claim C4, as the code has it. \<open>productionTest\<close> returns no value and leaves every field
  of the object as it was, whatever the registers hold; it writes no register, and it
  always returns. Its findings stay in local variables.
\<close>

theorem productionTest_reports_nothing:
  "drv (productionTest hw s) = drv s \<and> wlog (productionTest hw s) = wlog s"
  by (simp add: productionTest_def split_beta accessors_drv accessors_wlog)

text \<open>
  Three chips: one whose status reads 0xFFFF, one with a cell at 3.84 V, one with a cell
  at 0.02 V. After \<open>productionTest\<close> the object is the same in all three cases, so the
  caller cannot tell a communication failure or an implausible voltage from a pass.
\<close>

theorem productionTest_same_outcome_counterexample:
  "fst (getStatus ram_hw (example_sys (\<lambda>r. 0xFFFF) 0)) = 0xFFFF \<and>
   fst (getStatus ram_hw (example_sys (\<lambda>r. 0xC000) 0)) \<noteq> 0xFFFF \<and>
   fst (getVcell ram_hw (example_sys (\<lambda>r. 0xC000) 0)) = 3.84 \<and>
   fst (getStatus ram_hw (example_sys (\<lambda>r. 0x0100) 0)) \<noteq> 0xFFFF \<and>
   fst (getVcell ram_hw (example_sys (\<lambda>r. 0x0100) 0)) = 0.02 \<and>
   drv (productionTest ram_hw (example_sys (\<lambda>r. 0xFFFF) 0))
     = drv (productionTest ram_hw (example_sys (\<lambda>r. 0xC000) 0)) \<and>
   drv (productionTest ram_hw (example_sys (\<lambda>r. 0x0100) 0))
     = drv (productionTest ram_hw (example_sys (\<lambda>r. 0xC000) 0))"
  by (simp add: productionTest_def getStatus_def getVcell_def example_sys_def
      example_driver_def)


section \<open>The polling loops\<close>

lemma waitForDNRdataNotReady_loop_frame:
  assumes "waitForDNRdataNotReady_loop hw timeout s = Some r"
  shows "drv (snd r) = drv s \<and> wlog (snd r) = wlog s"
  using assms
proof (induction rule: waitForDNRdataNotReady_loop.raw_induct [rotated 1, consumes 1])
  case (1 loop hw timeout s r)
  show ?case
  proof (cases "millis hw (dev s) < timeout")
    case False
    with 1(2) show ?thesis by auto
  next
    case True
    obtain fstat s1 where rd: "readReg16Bit hw (regFStat (regs (drv s))) s = (fstat, s1)"
      by (cases "readReg16Bit hw (regFStat (regs (drv s))) s")
    then have s1: "drv s1 = drv s" "wlog s1 = wlog s"
      using readReg16Bit_drv [of hw "regFStat (regs (drv s))" s]
        readReg16Bit_wlog [of hw "regFStat (regs (drv s))" s] by simp_all
    show ?thesis
    proof (cases "fstat AND 0x0001 = 0")
      case True
      with 1(2) \<open>millis hw (dev s) < timeout\<close> rd s1 show ?thesis by auto
    next
      case False
      with 1(2) \<open>millis hw (dev s) < timeout\<close> rd
      have "loop hw timeout (do_delay hw 10 s1) = Some r" by simp
      from 1(1) [OF this] s1 show ?thesis by simp
    qed
  qed
qed

text \<open>
  On the simulated platform a flag that is set stays set, and the clock reaches the
  timeout after the remaining number of 10 ms steps.
\<close>

lemma ram_waitForDNRdataNotReady_loop_timeout:
  assumes "mem (dev s) (regFStat (regs (drv s))) AND 0x0001 \<noteq> 0"
    and "unat (clk (dev s)) + 10 * k = unat timeout"
  shows "waitForDNRdataNotReady_loop ram_hw timeout s
           = Some (False, s\<lparr>dev := (dev s)\<lparr>clk := timeout\<rparr>\<rparr>)"
  using assms
proof (induction k arbitrary: s)
  case 0
  then have "clk (dev s) = timeout"
    by (simp add: word_unat_eq_iff)
  then show ?case
    by (subst waitForDNRdataNotReady_loop.simps) auto
next
  case (Suc k)
  let ?s = "do_delay ram_hw 10 s"
  have lt: "clk (dev s) < timeout"
    using Suc.prems(2) by (simp add: word_less_nat_alt)
  have "unat (clk (dev s)) + 10 < 2 ^ 32"
    using Suc.prems(2) unsigned_less [of timeout, where ?'a = nat] by simp
  then have "unat (clk (dev s) + 10) = unat (clk (dev s)) + 10"
    by (simp add: unat_word_ariths)
  then have "unat (clk (dev ?s)) + 10 * k = unat timeout"
    using Suc.prems(2) by simp
  moreover have "mem (dev ?s) (regFStat (regs (drv ?s))) AND 0x0001 \<noteq> 0"
    using Suc.prems(1) by simp
  ultimately have "waitForDNRdataNotReady_loop ram_hw timeout ?s
                     = Some (False, ?s\<lparr>dev := (dev ?s)\<lparr>clk := timeout\<rparr>\<rparr>)"
    by (rule Suc.IH [rotated])
  then show ?case
    using lt Suc.prems(1) by (subst waitForDNRdataNotReady_loop.simps) simp
qed


text \<open>
  The poll on the simulated platform. When \<open>millis() + 1000\<close> wraps around, the loop
  condition is false at once and the poll fails without reading the flag.
\<close>

lemma ram_waitForDNRdataNotReady:
  "waitForDNRdataNotReady ram_hw s =
     Some (if unat (clk (dev s)) + 1000 < 2 ^ 32
           then if mem (dev s) (regFStat (regs (drv s))) AND 0x0001 = 0 then (True, s)
                else (False, s\<lparr>dev := (dev s)\<lparr>clk := clk (dev s) + 1000\<rparr>\<rparr>)
           else (False, s))"
proof (cases "unat (clk (dev s)) + 1000 < 2 ^ 32")
  case False
  moreover have "unat (clk (dev s)) < 2 ^ 32"
    using unsigned_less [of "clk (dev s)", where ?'a = nat] by simp
  ultimately have "(unat (clk (dev s)) + 1000) mod 2 ^ 32 = unat (clk (dev s)) + 1000 - 2 ^ 32"
    by (simp add: le_mod_geq)
  then have "\<not> clk (dev s) < clk (dev s) + 1000"
    by (simp add: word_less_nat_alt unat_word_ariths)
  with False show ?thesis
    unfolding waitForDNRdataNotReady_def
    by (subst waitForDNRdataNotReady_loop.simps) simp
next
  case True
  then have u: "unat (clk (dev s) + 1000) = unat (clk (dev s)) + 1000"
    by (simp add: unat_word_ariths)
  show ?thesis
  proof (cases "mem (dev s) (regFStat (regs (drv s))) AND 0x0001 = 0")
    case ready: True
    have "clk (dev s) < clk (dev s) + 1000"
      using u by (simp add: word_less_nat_alt)
    with True ready show ?thesis
      unfolding waitForDNRdataNotReady_def
      by (subst waitForDNRdataNotReady_loop.simps) simp
  next
    case False
    have "unat (clk (dev s)) + 10 * 100 = unat (clk (dev s) + 1000)"
      using u by simp
    with False have "waitForDNRdataNotReady_loop ram_hw (clk (dev s) + 1000) s
        = Some (False, s\<lparr>dev := (dev s)\<lparr>clk := clk (dev s) + 1000\<rparr>\<rparr>)"
      by (rule ram_waitForDNRdataNotReady_loop_timeout)
    with True False show ?thesis
      by (simp add: waitForDNRdataNotReady_def)
  qed
qed

section \<open>Initialization: the abort path\<close>

lemma waitForDNRdataNotReady_frame:
  assumes "waitForDNRdataNotReady hw s = Some (b, s')"
  shows "drv s' = drv s" and "wlog s' = wlog s"
  using waitForDNRdataNotReady_loop_frame [of hw _ s "(b, s')"] assms
  by (simp_all add: waitForDNRdataNotReady_def)

lemma exitHibernate_drv [simp]: "drv (exitHibernate hw s) = drv s"
  by (simp add: exitHibernate_def Let_def)

lemma exitHibernate_wlog [simp]:
  "wlog (exitHibernate hw s)
     = wlog s @ [(regHibCfg (regs (drv s)), 0), (regStatus (regs (drv s)), 0)]"
  by (simp add: exitHibernate_def Let_def)

lemma storeHibernateCFG_drv [simp]:
  "drv (storeHibernateCFG hw s)
     = (drv s)\<lparr>originalHibernateCFG := fst (readReg16Bit hw (regHibCfg (regs (drv s))) s)\<rparr>"
  by (simp add: storeHibernateCFG_def split_beta)

lemma storeHibernateCFG_wlog [simp]: "wlog (storeHibernateCFG hw s) = wlog s"
  by (simp add: storeHibernateCFG_def split_beta)




section \<open>Initialization: the hibernate configuration\<close>

lemma ram_waitforModelCFGrefreshReady_loop_timeout:
  assumes "mem (dev s) (regModelCfg (regs (drv s))) AND 0x8000 \<noteq> 0"
    and "unat (clk (dev s)) + 10 * k = unat timeout"
  shows "waitforModelCFGrefreshReady_loop ram_hw timeout s
           = Some (False, s\<lparr>dev := (dev s)\<lparr>clk := timeout\<rparr>\<rparr>)"
  using assms
proof (induction k arbitrary: s)
  case 0
  then have "clk (dev s) = timeout"
    by (simp add: word_unat_eq_iff)
  then show ?case
    by (subst waitforModelCFGrefreshReady_loop.simps) auto
next
  case (Suc k)
  let ?s = "do_delay ram_hw 10 s"
  have lt: "clk (dev s) < timeout"
    using Suc.prems(2) by (simp add: word_less_nat_alt)
  have "unat (clk (dev s)) + 10 < 2 ^ 32"
    using Suc.prems(2) unsigned_less [of timeout, where ?'a = nat] by simp
  then have "unat (clk (dev s) + 10) = unat (clk (dev s)) + 10"
    by (simp add: unat_word_ariths)
  then have "unat (clk (dev ?s)) + 10 * k = unat timeout"
    using Suc.prems(2) by simp
  moreover have "mem (dev ?s) (regModelCfg (regs (drv ?s))) AND 0x8000 \<noteq> 0"
    using Suc.prems(1) by simp
  ultimately have "waitforModelCFGrefreshReady_loop ram_hw timeout ?s
                     = Some (False, ?s\<lparr>dev := (dev ?s)\<lparr>clk := timeout\<rparr>\<rparr>)"
    by (rule Suc.IH [rotated])
  then show ?case
    using lt Suc.prems(1) by (subst waitforModelCFGrefreshReady_loop.simps) simp
qed

lemma ram_waitforModelCFGrefreshReady:
  "waitforModelCFGrefreshReady ram_hw s =
     Some (if unat (clk (dev s)) + 1000 < 2 ^ 32
           then if mem (dev s) (regModelCfg (regs (drv s))) AND 0x8000 = 0 then (True, s)
                else (False, s\<lparr>dev := (dev s)\<lparr>clk := clk (dev s) + 1000\<rparr>\<rparr>)
           else (False, s))"
proof (cases "unat (clk (dev s)) + 1000 < 2 ^ 32")
  case False
  moreover have "unat (clk (dev s)) < 2 ^ 32"
    using unsigned_less [of "clk (dev s)", where ?'a = nat] by simp
  ultimately have "(unat (clk (dev s)) + 1000) mod 2 ^ 32 = unat (clk (dev s)) + 1000 - 2 ^ 32"
    by (simp add: le_mod_geq)
  then have "\<not> clk (dev s) < clk (dev s) + 1000"
    by (simp add: word_less_nat_alt unat_word_ariths)
  with False show ?thesis
    unfolding waitforModelCFGrefreshReady_def
    by (subst waitforModelCFGrefreshReady_loop.simps) simp
next
  case True
  then have u: "unat (clk (dev s) + 1000) = unat (clk (dev s)) + 1000"
    by (simp add: unat_word_ariths)
  show ?thesis
  proof (cases "mem (dev s) (regModelCfg (regs (drv s))) AND 0x8000 = 0")
    case ready: True
    have "clk (dev s) < clk (dev s) + 1000"
      using u by (simp add: word_less_nat_alt)
    with True ready show ?thesis
      unfolding waitforModelCFGrefreshReady_def
      by (subst waitforModelCFGrefreshReady_loop.simps) simp
  next
    case False
    have "unat (clk (dev s)) + 10 * 100 = unat (clk (dev s) + 1000)"
      using u by simp
    with False have "waitforModelCFGrefreshReady_loop ram_hw (clk (dev s) + 1000) s
        = Some (False, s\<lparr>dev := (dev s)\<lparr>clk := clk (dev s) + 1000\<rparr>\<rparr>)"
      by (rule ram_waitforModelCFGrefreshReady_loop_timeout)
    with True False show ?thesis
      by (simp add: waitforModelCFGrefreshReady_def)
  qed
qed

text \<open>Both polls return on the simulated platform and change nothing but the clock.\<close>

lemma ram_waitForDNRdataNotReady_returns:
  "\<exists>b s'. waitForDNRdataNotReady ram_hw s = Some (b, s') \<and>
          drv s' = drv s \<and> wlog s' = wlog s \<and> mem (dev s') = mem (dev s)"
  by (auto simp: ram_waitForDNRdataNotReady)

lemma ram_waitforModelCFGrefreshReady_returns:
  "\<exists>b s'. waitforModelCFGrefreshReady ram_hw s = Some (b, s') \<and>
          drv s' = drv s \<and> wlog s' = wlog s \<and> mem (dev s') = mem (dev s)"
  by (auto simp: ram_waitforModelCFGrefreshReady)

lemma config_writes_drv [simp]:
  "drv (setDesignCap_mAh hw c s) = drv s"
  "drv (setIchgTerm hw i s) = drv s"
  "drv (setVEmpty hw vf s) = drv s"
  "drv (refreshModelCFG hw a b m s) = drv s"
  "drv (clearPORpowerOnReset hw s) = drv s"
  "drv (setLEDCfg1 hw s) = drv s"
  "drv (setLEDCfg2 hw s) = drv s"
  by (simp_all add: setDesignCap_mAh_def setIchgTerm_def setVEmpty_def refreshModelCFG_def
      clearPORpowerOnReset_def setLEDCfg1_def setLEDCfg2_def Let_def split_beta)

lemma ram_setEZconfig_returns:
  "\<exists>s'. setEZconfig ram_hw s = Some s' \<and> drv s' = drv s"
proof -
  obtain b s1 where w1: "waitForDNRdataNotReady ram_hw s = Some (b, s1)" and d1: "drv s1 = drv s"
    using ram_waitForDNRdataNotReady_returns [of s] by blast
  let ?s5 = "refreshModelCFG ram_hw (r100 (drv s1)) (vChg (drv s1)) (modelID (drv s1))
               (setVEmpty ram_hw (vEmpty (drv s1))
                 (setIchgTerm ram_hw (ichgTerm (drv s1))
                   (setDesignCap_mAh ram_hw (designCap_mAh (drv s1)) s1)))"
  obtain b' s6 where w2: "waitforModelCFGrefreshReady ram_hw ?s5 = Some (b', s6)"
    and d6: "drv s6 = drv ?s5"
    using ram_waitforModelCFGrefreshReady_returns [of ?s5] by blast
  have "setEZconfig ram_hw s = Some s6"
    using w1 w2 by (simp add: setEZconfig_def Let_def)
  moreover have "drv s6 = drv s"
    using d6 d1 by simp
  ultimately show ?thesis
    by blast
qed

lemma waitforModelCFGrefreshReady_loop_frame:
  assumes "waitforModelCFGrefreshReady_loop hw timeout s = Some r"
  shows "drv (snd r) = drv s"
  using assms
proof (induction rule: waitforModelCFGrefreshReady_loop.raw_induct [rotated 1, consumes 1])
  case (1 loop hw timeout s r)
  show ?case
  proof (cases "millis hw (dev s) < timeout")
    case False
    with 1(2) show ?thesis by auto
  next
    case True
    obtain modelCfg s1
      where rd: "readReg16Bit hw (regModelCfg (regs (drv s))) s = (modelCfg, s1)"
      by (cases "readReg16Bit hw (regModelCfg (regs (drv s))) s")
    then have s1: "drv s1 = drv s"
      using readReg16Bit_drv [of hw "regModelCfg (regs (drv s))" s] by simp
    show ?thesis
    proof (cases "modelCfg AND 0x8000 = 0")
      case True
      with 1(2) \<open>millis hw (dev s) < timeout\<close> rd s1 show ?thesis by auto
    next
      case False
      with 1(2) \<open>millis hw (dev s) < timeout\<close> rd
      have "loop hw timeout (do_delay hw 10 s1) = Some r" by simp
      from 1(1) [OF this] s1 show ?thesis by simp
    qed
  qed
qed

lemma setEZconfig_drv:
  assumes "setEZconfig hw s = Some s'"
  shows "drv s' = drv s"
proof -
  from assms obtain b s1 where w1: "waitForDNRdataNotReady hw s = Some (b, s1)"
    by (auto simp: setEZconfig_def split: option.splits)
  let ?s5 = "refreshModelCFG hw (r100 (drv s1)) (vChg (drv s1)) (modelID (drv s1))
               (setVEmpty hw (vEmpty (drv s1))
                 (setIchgTerm hw (ichgTerm (drv s1))
                   (setDesignCap_mAh hw (designCap_mAh (drv s1)) s1)))"
  from assms w1 obtain b' where w2: "waitforModelCFGrefreshReady hw ?s5 = Some (b', s')"
    by (auto simp: setEZconfig_def Let_def split: option.splits)
  have "drv s' = drv ?s5"
    using waitforModelCFGrefreshReady_loop_frame [of hw _ ?s5 "(b', s')"] w2
    by (simp add: waitforModelCFGrefreshReady_def)
  moreover have "drv s1 = drv s"
    using w1 by (rule waitForDNRdataNotReady_frame)
  ultimately show ?thesis
    by simp
qed

text \<open>
  On every platform: the snapshot \<open>initialize\<close> leaves in the object is the value read from
  HibCfg after the writes of \<open>exitHibernate\<close>, and a run that passes the poll ends with the
  write of that value to HibCfg.
\<close>

lemma initialize_snapshot_order:
  assumes "initialize hw s = Some s'"
    and "waitForDNRdataNotReady hw (storeHibernateCFG hw (exitHibernate hw s)) = Some (ready, s3)"
  shows "originalHibernateCFG (drv s')
           = fst (readReg16Bit hw (regHibCfg (regs (drv s))) (exitHibernate hw s))"
    and "ready \<Longrightarrow> last (wlog s') = (regHibCfg (regs (drv s)), originalHibernateCFG (drv s'))"
    and "ready \<Longrightarrow> \<exists>s8. s' = writeReg16Bit hw (regHibCfg (regs (drv s)))
                                (originalHibernateCFG (drv s')) s8"
proof -
  let ?v = "fst (readReg16Bit hw (regHibCfg (regs (drv s))) (exitHibernate hw s))"
  have d3: "drv s3 = (drv s)\<lparr>originalHibernateCFG := ?v\<rparr>"
    using waitForDNRdataNotReady_frame(1) [OF assms(2)] by simp
  have "originalHibernateCFG (drv s') = ?v \<and>
        (ready \<longrightarrow> last (wlog s') = (regHibCfg (regs (drv s)), ?v) \<and>
                   (\<exists>s8. s' = writeReg16Bit hw (regHibCfg (regs (drv s))) ?v s8))"
  proof (cases ready)
    case False
    then have "s' = s3"
      using assms by (simp add: initialize_def Let_def)
    with d3 False show ?thesis by simp
  next
    case True
    let ?s5 = "calcMultipliers hw (rSense (drv (clearPORpowerOnReset hw s3)))
                 (clearPORpowerOnReset hw s3)"
    from assms True obtain s6 where ez: "setEZconfig hw ?s5 = Some s6"
      and s': "s' = restoreHibernateCFG hw (setLEDCfg2 hw (setLEDCfg1 hw s6))"
      by (auto simp: initialize_def Let_def split: option.splits)
    have "drv s6 = drv ?s5"
      using ez by (rule setEZconfig_drv)
    then have d6: "originalHibernateCFG (drv s6) = ?v" "regs (drv s6) = regs (drv s)"
      using d3 by (simp_all add: calcMultipliers_def)
    then have "s' = writeReg16Bit hw (regHibCfg (regs (drv s))) ?v
                      (setLEDCfg2 hw (setLEDCfg1 hw s6))"
      unfolding s' by (simp add: restoreHibernateCFG_def)
    moreover have "originalHibernateCFG (drv s') = ?v"
        "last (wlog s') = (regHibCfg (regs (drv s)), ?v)"
      using d6 unfolding s' by (simp_all add: restoreHibernateCFG_def)
    ultimately show ?thesis
      by blast
  qed
  then show "originalHibernateCFG (drv s') = ?v"
    and "ready \<Longrightarrow> last (wlog s') = (regHibCfg (regs (drv s)), originalHibernateCFG (drv s'))"
    and "ready \<Longrightarrow> \<exists>s8. s' = writeReg16Bit hw (regHibCfg (regs (drv s)))
                                (originalHibernateCFG (drv s')) s8"
    by simp_all
qed

text \<open>
  On the platform with a table of registers and nothing else, \<open>initialize\<close> returns from
  every state, with the snapshot 0 and HibCfg holding 0.
\<close>

lemma ram_initialize_restores_zero:
  "\<exists>ready s3 s'.
     waitForDNRdataNotReady ram_hw (storeHibernateCFG ram_hw (exitHibernate ram_hw s))
       = Some (ready, s3) \<and>
     initialize ram_hw s = Some s' \<and>
     originalHibernateCFG (drv s') = 0 \<and>
     mem (dev s') (regHibCfg (regs (drv s))) = 0 \<and>
     (ready \<longrightarrow> last (wlog s') = (regHibCfg (regs (drv s)), 0))"
proof -
  let ?h = "regHibCfg (regs (drv s))"
  let ?s2 = "storeHibernateCFG ram_hw (exitHibernate ram_hw s)"
  have snap: "originalHibernateCFG (drv ?s2) = 0"
    by (simp add: storeHibernateCFG_def exitHibernate_def Let_def)
  have rg: "regs (drv ?s2) = regs (drv s)"
    by simp
  have zero: "mem (dev ?s2) ?h = 0"
    by (simp add: storeHibernateCFG_def exitHibernate_def Let_def)
  obtain ready s3 where w: "waitForDNRdataNotReady ram_hw ?s2 = Some (ready, s3)"
    and d3: "drv s3 = drv ?s2" and m3: "mem (dev s3) = mem (dev ?s2)"
    using ram_waitForDNRdataNotReady_returns [of ?s2] by blast
  show ?thesis
  proof (cases ready)
    case False
    then have "initialize ram_hw s = Some s3"
      using w by (simp add: initialize_def Let_def)
    moreover have "originalHibernateCFG (drv s3) = 0"
      using d3 snap by simp
    moreover have "mem (dev s3) ?h = 0"
      using m3 zero by simp
    ultimately show ?thesis
      using w False by blast
  next
    case True
    let ?s5 = "calcMultipliers ram_hw (rSense (drv (clearPORpowerOnReset ram_hw s3)))
                 (clearPORpowerOnReset ram_hw s3)"
    have d5: "originalHibernateCFG (drv ?s5) = 0" "regs (drv ?s5) = regs (drv s)"
      using d3 snap rg by (simp_all add: calcMultipliers_def)
    obtain s6 where ez: "setEZconfig ram_hw ?s5 = Some s6" and d6: "drv s6 = drv ?s5"
      using ram_setEZconfig_returns [of ?s5] by blast
    let ?s8 = "setLEDCfg2 ram_hw (setLEDCfg1 ram_hw s6)"
    let ?s' = "restoreHibernateCFG ram_hw ?s8"
    have d8: "originalHibernateCFG (drv ?s8) = 0" "regs (drv ?s8) = regs (drv s)"
      using d5 d6 by simp_all
    have ret: "initialize ram_hw s = Some ?s'"
      using w True ez by (simp add: initialize_def Let_def)
    have "originalHibernateCFG (drv ?s') = 0"
      using d8 by (simp add: restoreHibernateCFG_def)
    moreover have "mem (dev ?s') ?h = 0"
      using d8 by (simp add: restoreHibernateCFG_def)
    moreover have "last (wlog ?s') = (?h, 0)"
      using d8 by (simp add: restoreHibernateCFG_def)
    ultimately show ?thesis
      using w ret by blast
  qed
qed

text \<open>What a bus that returns what was last written gives the register access.\<close>

lemma returns_last_written_read:
  assumes "returns_last_written hw content"
  shows "fst (readReg16Bit hw reg s) = content (dev s) reg"
    and "content (dev (snd (readReg16Bit hw reg s))) = content (dev s)"
proof -
  let ?r = "wire_request hw (I2CAddress (drv s)) reg (dev s)"
  have b: "fst ?r = [ucast (content (dev s) reg), ucast (drop_bit 8 (content (dev s) reg))]"
    and c: "content (snd ?r) = content (dev s)"
    using assms by (simp_all add: returns_last_written_def)
  show "fst (readReg16Bit hw reg s) = content (dev s) reg"
    using b by (simp add: readReg16Bit_def split_beta bytes_roundtrip)
  show "content (dev (snd (readReg16Bit hw reg s))) = content (dev s)"
    using c by (simp add: readReg16Bit_def split_beta)
qed

lemma returns_last_written_write:
  assumes "returns_last_written hw content"
  shows "content (dev (writeReg16Bit hw reg v s)) = (content (dev s))(reg := v)"
proof -
  have "content (wire_send hw a [reg, lo, hi] e)
          = (content e)(reg := ucast lo OR push_bit 8 (ucast hi))" for a lo hi e
    using assms by (simp add: returns_last_written_def)
  then show ?thesis
    by (simp add: writeReg16Bit_def low_byte_mask bytes_roundtrip)
qed

lemma returns_last_written_delay:
  assumes "returns_last_written hw content"
  shows "content (dev (do_delay hw n s)) = content (dev s)"
  using assms by (simp add: returns_last_written_def do_delay_def)

lemma ram_returns_last_written: "returns_last_written ram_hw mem"
  by (simp add: returns_last_written_def ram_hw_def)

text \<open>
  Claim C1. On every platform, \<open>initialize\<close> reads the hibernate snapshot in the state that
  \<open>exitHibernate\<close> leaves, after its write of 0 to the HibCfg register: the snapshot is the
  value that read returns. When the Data-Not-Ready poll succeeds, so that the restore
  step is reached, the last write of the sequence is that snapshot to HibCfg. Hence over
  a bus that returns what was last written, whatever HibCfg held before, the snapshot is
  0 and the restore step writes 0, which HibCfg then holds.
\<close>

theorem initialize_restores_snapshot:
  assumes "initialize hw s = Some s'"
    and "waitForDNRdataNotReady hw (storeHibernateCFG hw (exitHibernate hw s)) = Some (ready, s3)"
  shows "wlog (exitHibernate hw s)
           = wlog s @ [(regHibCfg (regs (drv s)), 0), (regStatus (regs (drv s)), 0)] \<and>
         originalHibernateCFG (drv s')
           = fst (readReg16Bit hw (regHibCfg (regs (drv s))) (exitHibernate hw s)) \<and>
         (ready \<longrightarrow>
            last (wlog s') = (regHibCfg (regs (drv s)), originalHibernateCFG (drv s'))) \<and>
         (returns_last_written hw content \<longrightarrow>
            originalHibernateCFG (drv s') = 0 \<and>
            (ready \<longrightarrow> last (wlog s') = (regHibCfg (regs (drv s)), 0) \<and>
                       content (dev s') (regHibCfg (regs (drv s))) = 0))"
proof -
  let ?h = "regHibCfg (regs (drv s))"
  note order = initialize_snapshot_order [OF assms]
  have bus: "originalHibernateCFG (drv s') = 0 \<and>
             (ready \<longrightarrow> last (wlog s') = (?h, 0) \<and> content (dev s') ?h = 0)"
    if rlw: "returns_last_written hw content"
  proof -
    have "content (dev (exitHibernate hw s)) ?h = 0"
      by (simp add: exitHibernate_def Let_def returns_last_written_delay [OF rlw]
          returns_last_written_write [OF rlw])
    then have snap: "originalHibernateCFG (drv s') = 0"
      using order(1) returns_last_written_read(1) [OF rlw] by simp
    have "last (wlog s') = (?h, 0) \<and> content (dev s') ?h = 0" if ready
    proof -
      from order(3) [OF that] snap obtain s8 where "s' = writeReg16Bit hw ?h 0 s8"
        by auto
      then have "content (dev s') ?h = 0"
        by (simp add: returns_last_written_write [OF rlw])
      with order(2) [OF that] snap show ?thesis
        by simp
    qed
    with snap show ?thesis
      by blast
  qed
  from order(1,2) bus show ?thesis
    by simp
qed

text \<open>
  The table of registers, with HibCfg holding 0x870C before the call and the chip ready
  at once: the snapshot is 0, the restore step writes 0, and HibCfg holds 0 afterwards.
\<close>

theorem initialize_restores_snapshot_witness:
  "returns_last_written ram_hw mem \<and>
   mem (dev (example_sys ((\<lambda>r. 0)(0xBA := 0x870C)) 0)) 0xBA = 0x870C \<and>
   (\<exists>s3 s'.
      waitForDNRdataNotReady ram_hw
        (storeHibernateCFG ram_hw
          (exitHibernate ram_hw (example_sys ((\<lambda>r. 0)(0xBA := 0x870C)) 0)))
        = Some (True, s3) \<and>
      initialize ram_hw (example_sys ((\<lambda>r. 0)(0xBA := 0x870C)) 0) = Some s' \<and>
      originalHibernateCFG (drv s') = 0 \<and>
      last (wlog s') = (0xBA, 0) \<and>
      mem (dev s') 0xBA = 0)"
proof -
  let ?s = "example_sys ((\<lambda>r. 0)(0xBA := 0x870C)) 0"
  let ?s2 = "storeHibernateCFG ram_hw (exitHibernate ram_hw ?s)"
  have h: "regHibCfg (regs (drv ?s)) = 0xBA"
    by (simp add: example_sys_def example_driver_def datasheet_regs_def)
  have before: "mem (dev ?s) 0xBA = 0x870C"
    by (simp add: example_sys_def)
  obtain s3 where poll: "waitForDNRdataNotReady ram_hw ?s2 = Some (True, s3)"
    by (simp add: ram_waitForDNRdataNotReady storeHibernateCFG_def exitHibernate_def
        example_sys_def example_driver_def datasheet_regs_def)
  obtain s' where init: "initialize ram_hw ?s = Some s'"
    using ram_initialize_restores_zero [of ?s] by blast
  from initialize_restores_snapshot [OF init poll, of mem] ram_returns_last_written
  have "originalHibernateCFG (drv s') = 0 \<and> last (wlog s') = (0xBA, 0) \<and> mem (dev s') 0xBA = 0"
    unfolding h by blast
  with poll init before ram_returns_last_written show ?thesis
    by blast
qed

end
